theory Spec2Isabelle
  imports Complex_Main
begin

section \<open>The hero-canvas particle field of \<open>main.js\<close>\<close>

text \<open>
  The development embeds lines 50--307 and 363--371 of \<open>src/main.js\<close>: the colour cycle,
  the \<open>Particle\<close> class, \<open>init\<close>, \<open>connectParticles\<close>, \<open>animate\<close>, the start/stop
  controller and the event handlers that drive them.

  Numbers. A JavaScript number is a binary64 float. The model keeps its special values and
  abstracts its rounding: a finite number is a \<open>real\<close>, and the values a division or a
  square root can produce besides are the constructors of \<open>jsnum\<close>. Quantities that the
  script only ever assigns finite values (the clock, the velocities, the creation-time
  attributes, the pointer coordinates delivered by the browser) are plain reals; the particle
  position, which receives the quotient \<open>dx / distance\<close>, is a \<open>jsnum\<close>.
  The model has a single zero; the only divisor of the script that can be zero is the result
  of \<open>Math.sqrt\<close>, which is never a negative zero.

  Exceptions. An uncaught TypeError ends the handler that raised it; a function that can
  raise one returns an option, and \<open>None\<close> is the exception.
\<close>

subsection \<open>JavaScript numbers\<close>

datatype jsnum = Num real | PosInf | NegInf | NaN

fun jneg :: "jsnum \<Rightarrow> jsnum" where
  "jneg (Num a) = Num (- a)"
| "jneg PosInf = NegInf"
| "jneg NegInf = PosInf"
| "jneg NaN = NaN"

fun jadd :: "jsnum \<Rightarrow> jsnum \<Rightarrow> jsnum" where
  "jadd (Num a) (Num c) = Num (a + c)"
| "jadd NaN _ = NaN"
| "jadd _ NaN = NaN"
| "jadd PosInf NegInf = NaN"
| "jadd NegInf PosInf = NaN"
| "jadd PosInf _ = PosInf"
| "jadd NegInf _ = NegInf"
| "jadd _ PosInf = PosInf"
| "jadd _ NegInf = NegInf"

definition jsub :: "jsnum \<Rightarrow> jsnum \<Rightarrow> jsnum" where
  "jsub u v = jadd u (jneg v)"

fun jmul :: "jsnum \<Rightarrow> jsnum \<Rightarrow> jsnum" where
  "jmul (Num a) (Num c) = Num (a * c)"
| "jmul NaN _ = NaN"
| "jmul _ NaN = NaN"
| "jmul (Num a) PosInf = (if a = 0 then NaN else if 0 < a then PosInf else NegInf)"
| "jmul (Num a) NegInf = (if a = 0 then NaN else if 0 < a then NegInf else PosInf)"
| "jmul PosInf (Num c) = (if c = 0 then NaN else if 0 < c then PosInf else NegInf)"
| "jmul NegInf (Num c) = (if c = 0 then NaN else if 0 < c then NegInf else PosInf)"
| "jmul PosInf PosInf = PosInf"
| "jmul PosInf NegInf = NegInf"
| "jmul NegInf PosInf = NegInf"
| "jmul NegInf NegInf = PosInf"

text \<open>Division: \<open>0 / 0\<close> is NaN, a non-zero number over zero is an infinity.\<close>

fun jdiv :: "jsnum \<Rightarrow> jsnum \<Rightarrow> jsnum" where
  "jdiv (Num a) (Num c) =
     (if c = 0 then (if a = 0 then NaN else if 0 < a then PosInf else NegInf)
      else Num (a / c))"
| "jdiv NaN _ = NaN"
| "jdiv _ NaN = NaN"
| "jdiv (Num a) PosInf = Num 0"
| "jdiv (Num a) NegInf = Num 0"
| "jdiv PosInf (Num c) = (if 0 \<le> c then PosInf else NegInf)"
| "jdiv NegInf (Num c) = (if 0 \<le> c then NegInf else PosInf)"
| "jdiv PosInf PosInf = NaN"
| "jdiv PosInf NegInf = NaN"
| "jdiv NegInf PosInf = NaN"
| "jdiv NegInf NegInf = NaN"

fun jsqrt :: "jsnum \<Rightarrow> jsnum" where
  "jsqrt (Num a) = (if a < 0 then NaN else Num (sqrt a))"
| "jsqrt PosInf = PosInf"
| "jsqrt NegInf = NaN"
| "jsqrt NaN = NaN"

text \<open>Comparisons: every comparison with NaN is false.\<close>

fun jlt :: "jsnum \<Rightarrow> jsnum \<Rightarrow> bool" where
  "jlt (Num a) (Num c) = (a < c)"
| "jlt NaN _ = False"
| "jlt _ NaN = False"
| "jlt _ NegInf = False"
| "jlt PosInf _ = False"
| "jlt NegInf _ = True"
| "jlt _ PosInf = True"

definition jgt :: "jsnum \<Rightarrow> jsnum \<Rightarrow> bool" where
  "jgt u v = jlt v u"

text \<open>The remainder operator \<open>a % m\<close> on finite numbers: the quotient is truncated towards
  zero, so the result has the sign of \<open>a\<close>.\<close>

definition js_rem :: "real \<Rightarrow> real \<Rightarrow> real" where
  "js_rem a m = a - m * of_int (if 0 \<le> a / m then \<lfloor>a / m\<rfloor> else \<lceil>a / m\<rceil>)"

text \<open>Reading \<open>arr[i]\<close>: \<open>None\<close> is JavaScript's \<open>undefined\<close>, the value of an index outside
  the array.\<close>

definition js_index :: "'a list \<Rightarrow> int \<Rightarrow> 'a option" where
  "js_index xs i = (if 0 \<le> i \<and> i < int (length xs) then Some (xs ! nat i) else None)"

subsection \<open>The colour cycle\<close>

text \<open>An object \<open>{r, g, b}\<close>. The palette's channels are integers, and so is every value of
  \<open>Math.round\<close>; \<open>round x\<close> is \<open>\<lfloor>x + 1/2\<rfloor>\<close>, as \<open>Math.round\<close> is.\<close>

record color =
  c_r :: int
  c_g :: int
  c_b :: int

definition sunsetColors :: "color list" where
  "sunsetColors =
    [\<lparr>c_r = 255, c_g = 140, c_b = 66\<rparr>,
     \<lparr>c_r = 201, c_g = 108, c_b = 77\<rparr>,
     \<lparr>c_r = 212, c_g = 165, c_b = 116\<rparr>,
     \<lparr>c_r = 255, c_g = 120, c_b = 80\<rparr>,
     \<lparr>c_r = 180, c_g = 100, c_b = 120\<rparr>,
     \<lparr>c_r = 156, c_g = 82, c_b = 100\<rparr>,
     \<lparr>c_r = 201, c_g = 108, c_b = 77\<rparr>]"

definition interpolateColor :: "color \<Rightarrow> color \<Rightarrow> real \<Rightarrow> color" where
  "interpolateColor color1 color2 factor =
    \<lparr>c_r = round (real_of_int (c_r color1) + (real_of_int (c_r color2) - real_of_int (c_r color1)) * factor),
     c_g = round (real_of_int (c_g color1) + (real_of_int (c_g color2) - real_of_int (c_g color1)) * factor),
     c_b = round (real_of_int (c_b color1) + (real_of_int (c_b color2) - real_of_int (c_b color1)) * factor)\<rparr>"

text \<open>\<open>getCurrentSunsetColor(offset)\<close> reads the global \<open>colorTime\<close>, here its first
  argument. When \<open>sunsetColors[index]\<close> is \<open>undefined\<close>, \<open>interpolateColor\<close> reads a
  property of \<open>undefined\<close> and a TypeError is thrown: the result \<open>None\<close>.\<close>

definition getCurrentSunsetColor :: "real \<Rightarrow> real \<Rightarrow> color option" where
  "getCurrentSunsetColor colorTime offset =
    (let adjustedTime = js_rem (colorTime + offset) 1;
         totalSegments = int (length sunsetColors) - 1;
         segment = adjustedTime * real_of_int totalSegments;
         index = \<lfloor>segment\<rfloor>;
         factor = segment - real_of_int index
     in case js_index sunsetColors index of
          None \<Rightarrow> None
        | Some color1 \<Rightarrow>
            (case js_index sunsetColors (min (index + 1) (int (length sunsetColors) - 1)) of
               None \<Rightarrow> None
             | Some color2 \<Rightarrow> Some (interpolateColor color1 color2 factor)))"

subsection \<open>The drawing context\<close>

text \<open>The 2D context is an external collaborator: the model keeps the sequence of calls
  and property assignments it receives. A style string \<open>rgba(r, g, b, a)\<close> is kept as its
  four numbers.\<close>

datatype style = Rgba int int int jsnum

datatype ctxcall =
    ClearRect real real real real
  | SetFillStyle style
  | SetStrokeStyle style
  | SetLineWidth real
  | BeginPath
  | Arc jsnum jsnum real real real
  | Fill
  | MoveTo jsnum jsnum
  | LineTo jsnum jsnum
  | Stroke

subsection \<open>Particles and the script's global state\<close>

text \<open>The fields \<open>x\<close>, \<open>y\<close> and \<open>size\<close> of the class are \<open>p_x\<close>, \<open>p_y\<close> and \<open>p_size\<close> here.\<close>

record Particle =
  p_x :: jsnum
  p_y :: jsnum
  p_size :: real
  baseX :: jsnum
  baseY :: jsnum
  density :: real
  vx :: real
  vy :: real
  colorOffset :: real
  pulsePhase :: real

text \<open>
  The script's top-level variables, \<open>canvas.width\<close> and \<open>canvas.height\<close>, and what the
  model keeps of the host: \<open>ctx\<close>, the calls the drawing context has received;
  \<open>frames\<close>, the handles of the animation-frame requests for \<open>animate\<close> that are neither
  run nor cancelled; \<open>nextHandle\<close>, the handle the next request gets; \<open>randoms\<close>, the values
  \<open>Math.random()\<close> returns, in order, and \<open>randomsUsed\<close>, how many were taken. An
  \<open>animationId\<close> of \<open>None\<close> is \<open>undefined\<close> or \<open>null\<close>.
\<close>

record globals =
  particles :: "Particle list"
  mouseX :: real
  mouseY :: real
  animationId :: "nat option"
  colorTime :: real
  isPageVisible :: bool
  isCanvasVisible :: bool
  isAnimating :: bool
  mouseTrackingEnabled :: bool
  isMobile :: bool
  prefersReducedMotion :: bool
  canvas_width :: nat
  canvas_height :: nat
  ctx :: "ctxcall list"
  frames :: "nat list"
  nextHandle :: nat
  randoms :: "nat \<Rightarrow> real"
  randomsUsed :: nat

definition resizeCanvas :: "nat \<Rightarrow> nat \<Rightarrow> globals \<Rightarrow> globals" where
  "resizeCanvas innerWidth innerHeight w =
     w\<lparr>canvas_width := innerWidth, canvas_height := innerHeight\<rparr>"

text \<open>\<open>new Particle()\<close>: eight calls of \<open>Math.random()\<close>, in the constructor's order.\<close>

definition new_Particle :: "globals \<Rightarrow> Particle \<times> globals" where
  "new_Particle w =
    (let u = randoms w; k = randomsUsed w;
         x0 = u k * real (canvas_width w);
         y0 = u (k + 1) * real (canvas_height w)
     in (\<lparr>p_x = Num x0, p_y = Num y0,
          p_size = u (k + 2) * 2 + 1,
          baseX = Num x0, baseY = Num y0,
          density = u (k + 3) * 30 + 1,
          vx = (u (k + 4) - 0.5) * 0.5,
          vy = (u (k + 5) - 0.5) * 0.5,
          colorOffset = u (k + 6) * 0.3,
          pulsePhase = u (k + 7) * pi * 2\<rparr>,
         w\<lparr>randomsUsed := k + 8\<rparr>))"

text \<open>\<open>Particle.update\<close>: the method body, from the object and the globals it reads to the
  object after the call.\<close>

definition update :: "globals \<Rightarrow> Particle \<Rightarrow> Particle" where
  "update w p =
    (let dx = jsub (Num (mouseX w)) (p_x p);
         dy = jsub (Num (mouseY w)) (p_y p);
         distance = jsqrt (jadd (jmul dx dx) (jmul dy dy));
         forceDirectionX = jdiv dx distance;
         forceDirectionY = jdiv dy distance;
         maxDistance = Num 150;
         force = jdiv (jsub maxDistance distance) maxDistance;
         directionX = jmul (jmul (jmul forceDirectionX force) (Num (density p))) (Num 0.5);
         directionY = jmul (jmul (jmul forceDirectionY force) (Num (density p))) (Num 0.5)
     in if jlt distance maxDistance
        then p\<lparr>p_x := jsub (p_x p) directionX, p_y := jsub (p_y p) directionY\<rparr>
        else
          (let p1 = p\<lparr>p_x := jadd (p_x p) (Num (vx p)), p_y := jadd (p_y p) (Num (vy p))\<rparr>;
               p2 = (if jlt (p_x p1) (Num 0) \<or> jgt (p_x p1) (Num (real (canvas_width w)))
                     then p1\<lparr>vx := vx p1 * (- 1)\<rparr> else p1);
               p3 = (if jlt (p_y p2) (Num 0) \<or> jgt (p_y p2) (Num (real (canvas_height w)))
                     then p2\<lparr>vy := vy p2 * (- 1)\<rparr> else p2)
           in p3))"

text \<open>\<open>Particle.draw\<close> assigns to no field of the object: its effect is the calls it makes
  on the context, or a TypeError (\<open>None\<close>) thrown by the colour lookup before any call.\<close>

definition draw :: "globals \<Rightarrow> Particle \<Rightarrow> ctxcall list option" where
  "draw w p =
    (case getCurrentSunsetColor (colorTime w) (colorOffset p) of
       None \<Rightarrow> None
     | Some color \<Rightarrow>
        (let pulse = 0.5 + 0.3 * sin (colorTime w * pi * 4 + pulsePhase p);
             disc = [SetFillStyle (Rgba (c_r color) (c_g color) (c_b color) (Num (0.5 + pulse * 0.3))),
                     BeginPath,
                     Arc (p_x p) (p_y p) (p_size p * (0.8 + pulse * 0.4)) 0 (pi * 2),
                     Fill];
             glow = [SetFillStyle (Rgba (c_r color) (c_g color) (c_b color) (Num (0.1 + pulse * 0.1))),
                     BeginPath,
                     Arc (p_x p) (p_y p) (p_size p * 3) 0 (pi * 2),
                     Fill]
         in Some (if 1.5 < p_size p then disc @ glow else disc)))"

text \<open>A sequence of method calls on one particle object. The globals a call reads may have
  changed since the call before, so each call comes with the globals it runs under.\<close>

datatype particle_method = Update | Draw

fun calls :: "(particle_method \<times> globals) list \<Rightarrow> Particle \<Rightarrow> Particle" where
  "calls [] p = p"
| "calls ((Update, w) # cs) p = calls cs (update w p)"
| "calls ((Draw, w) # cs) p = calls cs p"

subsection \<open>Building the field: \<open>init\<close>\<close>

text \<open>Lines 163--172 of \<open>init\<close>: \<open>(maxParticles, densityFactor)\<close>.\<close>

definition init_limits :: "globals \<Rightarrow> nat \<times> nat" where
  "init_limits w =
    (if prefersReducedMotion w then (20, 30000)
     else if isMobile w then (40, 20000)
     else (100, 15000))"

definition push_new_Particle :: "globals \<Rightarrow> globals" where
  "push_new_Particle w =
    (case new_Particle w of (p, w') \<Rightarrow> w'\<lparr>particles := particles w' @ [p]\<rparr>)"

text \<open>The loop \<open>for (let i = 0; i < numberOfParticles; i++)\<close>. Its bound is the quotient
  itself, not an integer part of it.\<close>

function init_loop :: "real \<Rightarrow> nat \<Rightarrow> globals \<Rightarrow> globals" where
  "init_loop numberOfParticles i w =
    (if real i < numberOfParticles
     then init_loop numberOfParticles (Suc i) (push_new_Particle w)
     else w)"
  by pat_completeness auto
termination
proof (relation "measure (\<lambda>(n, i, w). nat \<lceil>n\<rceil> - i)")
  show "wf (measure (\<lambda>(n, i, w). nat \<lceil>n\<rceil> - i))"
    by simp
next
  fix numberOfParticles :: real and i :: nat and w :: globals
  assume lt: "real i < numberOfParticles"
  have "real i < real_of_int \<lceil>numberOfParticles\<rceil>"
    using lt le_of_int_ceiling [of numberOfParticles] by linarith
  then have "int i < \<lceil>numberOfParticles\<rceil>"
    by linarith
  then have "i < nat \<lceil>numberOfParticles\<rceil>"
    by linarith
  then show "((numberOfParticles, Suc i, push_new_Particle w), (numberOfParticles, i, w))
      \<in> measure (\<lambda>(n, i, w). nat \<lceil>n\<rceil> - i)"
    by simp
qed

definition init :: "globals \<Rightarrow> globals" where
  "init w =
    (let w0 = w\<lparr>particles := []\<rparr>;
         maxParticles = fst (init_limits w0);
         densityFactor = snd (init_limits w0);
         numberOfParticles =
           min (real (canvas_width w0 * canvas_height w0) / real densityFactor) (real maxParticles)
     in init_loop numberOfParticles 0 w0)"

subsection \<open>The connector pass: \<open>connectParticles\<close>\<close>

text \<open>The body of the inner loop for the pair \<open>(a, b)\<close>: the calls it makes on the context
  (none after \<open>continue\<close>), or a TypeError from the colour lookup.\<close>

definition connectPair :: "globals \<Rightarrow> nat \<Rightarrow> nat \<Rightarrow> ctxcall list option" where
  "connectPair w a b =
    (let maxDistance = (if isMobile w then 100 else 120 :: real);
         maxDistanceSquared = maxDistance * maxDistance;
         pa = particles w ! a;
         pb = particles w ! b;
         dx = jsub (p_x pa) (p_x pb);
         dy = jsub (p_y pa) (p_y pb);
         distanceSquared = jadd (jmul dx dx) (jmul dy dy)
     in if jgt distanceSquared (Num maxDistanceSquared) then Some []
        else
          (let distance = jsqrt distanceSquared;
               opacity = jsub (Num 1) (jdiv distance (Num maxDistance))
           in case getCurrentSunsetColor (colorTime w) (colorOffset pa) of
                None \<Rightarrow> None
              | Some colorA \<Rightarrow>
                 (case getCurrentSunsetColor (colorTime w) (colorOffset pb) of
                    None \<Rightarrow> None
                  | Some colorB \<Rightarrow>
                     (let avgColor = interpolateColor colorA colorB 0.5
                      in Some [SetStrokeStyle (Rgba (c_r avgColor) (c_g avgColor) (c_b avgColor)
                                                (jmul opacity (Num 0.25))),
                               SetLineWidth 1,
                               BeginPath,
                               MoveTo (p_x pa) (p_y pa),
                               LineTo (p_x pb) (p_y pb),
                               Stroke]))))"

text \<open>The two loops. The pass only reads the particles, so the loops carry the calls made so
  far and leave the globals alone.\<close>

function connect_inner :: "globals \<Rightarrow> nat \<Rightarrow> nat \<Rightarrow> ctxcall list \<Rightarrow> ctxcall list option" where
  "connect_inner w a b acc =
    (if b < length (particles w)
     then (case connectPair w a b of
             None \<Rightarrow> None
           | Some cs \<Rightarrow> connect_inner w a (Suc b) (acc @ cs))
     else Some acc)"
  by pat_completeness auto
termination
  by (relation "measure (\<lambda>(w, a, b, acc). length (particles w) - b)") auto

function connect_outer :: "globals \<Rightarrow> nat \<Rightarrow> ctxcall list \<Rightarrow> ctxcall list option" where
  "connect_outer w a acc =
    (if a < length (particles w)
     then (case connect_inner w a (Suc a) acc of
             None \<Rightarrow> None
           | Some acc' \<Rightarrow> connect_outer w (Suc a) acc')
     else Some acc)"
  by pat_completeness auto
termination
  by (relation "measure (\<lambda>(w, a, acc). length (particles w) - a)") auto

definition connectParticles :: "globals \<Rightarrow> globals option" where
  "connectParticles w =
    (case connect_outer w 0 [] of
       None \<Rightarrow> None
     | Some cs \<Rightarrow> Some (w\<lparr>ctx := ctx w @ cs\<rparr>))"

subsection \<open>The render loop and its controller\<close>

definition requestAnimationFrame :: "globals \<Rightarrow> nat \<times> globals" where
  "requestAnimationFrame w =
    (nextHandle w, w\<lparr>frames := frames w @ [nextHandle w], nextHandle := Suc (nextHandle w)\<rparr>)"

definition cancelAnimationFrame :: "nat \<Rightarrow> globals \<Rightarrow> globals" where
  "cancelAnimationFrame h w = w\<lparr>frames := filter (\<lambda>k. k \<noteq> h) (frames w)\<rparr>"

text \<open>The callback of \<open>particles.forEach\<close> at index \<open>i\<close>: \<open>update\<close> changes the object in
  the array, \<open>draw\<close> adds its calls to the context.\<close>

definition updateAndDraw :: "nat \<Rightarrow> globals \<Rightarrow> globals option" where
  "updateAndDraw i w =
    (let w1 = w\<lparr>particles := (particles w)[i := update w (particles w ! i)]\<rparr>
     in case draw w1 (particles w1 ! i) of
          None \<Rightarrow> None
        | Some cs \<Rightarrow> Some (w1\<lparr>ctx := ctx w1 @ cs\<rparr>))"

fun forEachIndex :: "nat list \<Rightarrow> globals \<Rightarrow> globals option" where
  "forEachIndex [] w = Some w"
| "forEachIndex (i # is) w =
    (case updateAndDraw i w of
       None \<Rightarrow> None
     | Some w' \<Rightarrow> forEachIndex is w')"

definition animate :: "globals \<Rightarrow> globals option" where
  "animate w =
    (if \<not> isPageVisible w \<or> \<not> isCanvasVisible w then Some (w\<lparr>isAnimating := False\<rparr>)
     else
      (let w1 = w\<lparr>isAnimating := True\<rparr>;
           w2 = w1\<lparr>ctx := ctx w1 @ [ClearRect 0 0 (real (canvas_width w1)) (real (canvas_height w1))]\<rparr>;
           w3 = w2\<lparr>colorTime := js_rem (colorTime w2 + 0.0008) 1\<rparr>
       in case forEachIndex [0..<length (particles w3)] w3 of
            None \<Rightarrow> None
          | Some w4 \<Rightarrow>
             (case connectParticles w4 of
                None \<Rightarrow> None
              | Some w5 \<Rightarrow>
                 (case requestAnimationFrame w5 of
                    (h, w6) \<Rightarrow> Some (w6\<lparr>animationId := Some h\<rparr>)))))"

definition startAnimation :: "globals \<Rightarrow> globals option" where
  "startAnimation w =
    (if \<not> isAnimating w \<and> isPageVisible w \<and> isCanvasVisible w then animate w else Some w)"

text \<open>\<open>if (animationId)\<close>: \<open>undefined\<close>, \<open>null\<close> and \<open>0\<close> are falsy.\<close>

definition stopAnimation :: "globals \<Rightarrow> globals" where
  "stopAnimation w =
    (let w1 = (case animationId w of
                 None \<Rightarrow> w
               | Some h \<Rightarrow>
                  if h \<noteq> 0 then (cancelAnimationFrame h w)\<lparr>animationId := None\<rparr> else w)
     in w1\<lparr>isAnimating := False\<rparr>)"

subsection \<open>Event handlers and the script's start\<close>

definition handleMouseMove :: "real \<Rightarrow> real \<Rightarrow> globals \<Rightarrow> globals" where
  "handleMouseMove clientX clientY w =
    (if mouseTrackingEnabled w \<and> isAnimating w
     then w\<lparr>mouseX := clientX, mouseY := clientY\<rparr> else w)"

text \<open>\<open>e.touches[0].clientX\<close>: an empty \<open>touches\<close> list makes the read a TypeError.\<close>

definition handleTouchMove :: "(real \<times> real) list \<Rightarrow> globals \<Rightarrow> globals option" where
  "handleTouchMove touches w =
    (if mouseTrackingEnabled w \<and> isAnimating w
     then (case touches of
             [] \<Rightarrow> None
           | (clientX, clientY) # _ \<Rightarrow> Some (w\<lparr>mouseX := clientX, mouseY := clientY\<rparr>))
     else Some w)"

definition onVisibilityChange :: "bool \<Rightarrow> globals \<Rightarrow> globals option" where
  "onVisibilityChange hidden w =
    (let w1 = w\<lparr>isPageVisible := \<not> hidden\<rparr>
     in if isPageVisible w1 \<and> isCanvasVisible w1 then startAnimation w1
        else Some (stopAnimation w1))"

fun onIntersection :: "bool list \<Rightarrow> globals \<Rightarrow> globals option" where
  "onIntersection [] w = Some w"
| "onIntersection (isIntersecting # entries) w =
    (let w1 = w\<lparr>isCanvasVisible := isIntersecting\<rparr>
     in case (if isCanvasVisible w1 \<and> isPageVisible w1 then startAnimation w1
              else Some (stopAnimation w1)) of
          None \<Rightarrow> None
        | Some w2 \<Rightarrow> onIntersection entries w2)"

definition onResize :: "nat \<Rightarrow> nat \<Rightarrow> globals \<Rightarrow> globals" where
  "onResize innerWidth innerHeight w = init (resizeCanvas innerWidth innerHeight w)"

text \<open>The host runs the callback of a pending animation-frame request.\<close>

definition onAnimationFrame :: "globals \<Rightarrow> globals option" where
  "onAnimationFrame w =
    (case frames w of
       [] \<Rightarrow> Some w
     | h # hs \<Rightarrow> animate (w\<lparr>frames := hs\<rparr>))"

datatype event =
    MouseMove real real
  | TouchMove "(real \<times> real) list"
  | VisibilityChange bool
  | Intersection "bool list"
  | Resize nat nat
  | AnimationFrame
  | BeforeUnload

fun handle :: "event \<Rightarrow> globals \<Rightarrow> globals option" where
  "handle (MouseMove clientX clientY) w = Some (handleMouseMove clientX clientY w)"
| "handle (TouchMove touches) w = handleTouchMove touches w"
| "handle (VisibilityChange hidden) w = onVisibilityChange hidden w"
| "handle (Intersection entries) w = onIntersection entries w"
| "handle (Resize innerWidth innerHeight) w = Some (onResize innerWidth innerHeight w)"
| "handle AnimationFrame w = onAnimationFrame w"
| "handle BeforeUnload w = Some (stopAnimation w)"

fun run :: "event list \<Rightarrow> globals \<Rightarrow> globals option" where
  "run [] w = Some w"
| "run (e # es) w = (case handle e w of None \<Rightarrow> None | Some w' \<Rightarrow> run es w')"

text \<open>
  The state the top-level declarations leave, from what the host provides: whether the
  user agent matches the mobile pattern, the reduced-motion preference, \<open>document.hidden\<close>,
  the window's inner size, and the values \<open>Math.random()\<close> will return. The canvas has the
  default size of a canvas element until \<open>resizeCanvas\<close> runs. Handles of animation-frame
  requests are positive.
\<close>

definition declarations :: "bool \<Rightarrow> bool \<Rightarrow> bool \<Rightarrow> nat \<Rightarrow> (nat \<Rightarrow> real) \<Rightarrow> globals" where
  "declarations mobileAgent reducedMotion hidden innerWidth rnd =
    \<lparr>particles = [], mouseX = 0, mouseY = 0, animationId = None, colorTime = 0,
     isPageVisible = \<not> hidden, isCanvasVisible = True, isAnimating = False,
     mouseTrackingEnabled = True,
     isMobile = (mobileAgent \<or> innerWidth < 768),
     prefersReducedMotion = reducedMotion,
     canvas_width = 300, canvas_height = 150,
     ctx = [], frames = [], nextHandle = 1,
     randoms = rnd, randomsUsed = 0\<rparr>"

text \<open>Lines 305--307: \<open>resizeCanvas(); init(); startAnimation();\<close>\<close>

definition script :: "bool \<Rightarrow> bool \<Rightarrow> bool \<Rightarrow> nat \<Rightarrow> nat \<Rightarrow> (nat \<Rightarrow> real) \<Rightarrow> globals option" where
  "script mobileAgent reducedMotion hidden innerWidth innerHeight rnd =
    startAnimation
      (init (resizeCanvas innerWidth innerHeight
        (declarations mobileAgent reducedMotion hidden innerWidth rnd)))"

text \<open>The events that write the pointer variables.\<close>

fun pointer_event :: "event \<Rightarrow> bool" where
  "pointer_event (MouseMove _ _) = True"
| "pointer_event (TouchMove _) = True"
| "pointer_event _ = False"

subsection \<open>The invariant of the controller\<close>

text \<open>
  What holds between two handlers. While \<open>isAnimating\<close> is set both visibility flags are set
  and exactly one animation-frame request is pending, the one \<open>animationId\<close> names; while
  it is clear no request is pending and \<open>animationId\<close> is empty. The clock and the colour
  offsets are not negative, which keeps the colour lookup inside the palette.
\<close>

definition controller_inv :: "globals \<Rightarrow> bool" where
  "controller_inv w \<longleftrightarrow>
     0 < nextHandle w
     \<and> 0 \<le> colorTime w
     \<and> (\<forall>p \<in> set (particles w). 0 \<le> colorOffset p)
     \<and> (\<forall>k. 0 \<le> randoms w k)
     \<and> (if isAnimating w
         then isPageVisible w \<and> isCanvasVisible w
              \<and> (case animationId w of None \<Rightarrow> False | Some h \<Rightarrow> h \<noteq> 0 \<and> frames w = [h])
         else frames w = [] \<and> animationId w = None)"

section \<open>Properties\<close>

subsection \<open>How many particles \<open>init\<close> creates\<close>

declare init_loop.simps [simp del]

lemma particles_push_new_Particle:
  "length (particles (push_new_Particle w)) = Suc (length (particles w))"
  by (simp add: push_new_Particle_def new_Particle_def Let_def)

lemma length_init_loop:
  "length (particles (init_loop n i w)) = length (particles w) + (nat \<lceil>n\<rceil> - i)"
proof (induction n i w rule: init_loop.induct)
  case (1 n i w)
  show ?case
  proof (cases "real i < n")
    case True
    then have "real i < real_of_int \<lceil>n\<rceil>"
      using le_of_int_ceiling [of n] by linarith
    then have "i < nat \<lceil>n\<rceil>" by linarith
    with True "1.IH" show ?thesis
      by (subst init_loop.simps) (simp add: particles_push_new_Particle)
  next
    case False
    then have "n \<le> real_of_int (int i)" by linarith
    then have "\<lceil>n\<rceil> \<le> int i" by (rule ceiling_le)
    then have "nat \<lceil>n\<rceil> - i = 0" by linarith
    with False show ?thesis
      by (subst init_loop.simps) simp
  qed
qed

lemma length_init:
  "length (particles (init w)) =
     nat \<lceil>min (real (canvas_width w * canvas_height w) / real (snd (init_limits w)))
              (real (fst (init_limits w)))\<rceil>"
  by (simp add: init_def Let_def length_init_loop init_limits_def)

lemma length_init_le: "length (particles (init w)) \<le> fst (init_limits w)"
proof -
  have "\<lceil>min (real (canvas_width w * canvas_height w) / real (snd (init_limits w)))
              (real (fst (init_limits w)))\<rceil> \<le> \<lceil>real (fst (init_limits w))\<rceil>"
    by (rule ceiling_mono) simp
  then show ?thesis
    unfolding length_init by simp
qed

text \<open>
  C1, as the code has it. The number of particles a rebuild creates is a function of the
  canvas area and the profile, is at most the profile's \<open>maxParticles\<close>, and is the
  \<^emph>\<open>ceiling\<close> of \<open>min (area / densityFactor) maxParticles\<close>: the loop runs while the
  integer counter is below the unrounded quotient. With the full profile an area of
  1,000,000 gives 67 particles and a 1024 by 768 canvas gives 53.
\<close>

theorem init_particle_count:
  "length (particles (init w)) =
     nat \<lceil>min (real (canvas_width w * canvas_height w) / real (snd (init_limits w)))
              (real (fst (init_limits w)))\<rceil>
   \<and> length (particles (init w)) \<le> fst (init_limits w)
   \<and> (\<not> prefersReducedMotion w \<and> \<not> isMobile w \<and> canvas_width w * canvas_height w = 1000000
        \<longrightarrow> length (particles (init w)) = 67)
   \<and> (\<not> prefersReducedMotion w \<and> \<not> isMobile w \<and> canvas_width w = 1024 \<and> canvas_height w = 768
        \<longrightarrow> length (particles (init w)) = 53)"
proof (intro conjI impI)
  show "length (particles (init w)) =
     nat \<lceil>min (real (canvas_width w * canvas_height w) / real (snd (init_limits w)))
              (real (fst (init_limits w)))\<rceil>"
    by (rule length_init)
  show "length (particles (init w)) \<le> fst (init_limits w)"
    by (rule length_init_le)
next
  assume "\<not> prefersReducedMotion w \<and> \<not> isMobile w \<and> canvas_width w * canvas_height w = 1000000"
  then show "length (particles (init w)) = 67"
    by (simp add: length_init init_limits_def)
next
  assume "\<not> prefersReducedMotion w \<and> \<not> isMobile w \<and> canvas_width w = 1024 \<and> canvas_height w = 768"
  then show "length (particles (init w)) = 53"
    by (simp add: length_init init_limits_def)
qed

theorem init_particle_count_witness:
  "length (particles (init (resizeCanvas 1024 768 (declarations False False False 1024 (\<lambda>k. 0))))) = 53
   \<and> length (particles (init (resizeCanvas 1000 1000 (declarations False False False 1000 (\<lambda>k. 0))))) = 67"
  using init_particle_count [of "resizeCanvas 1024 768 (declarations False False False 1024 (\<lambda>k. 0))"]
    init_particle_count [of "resizeCanvas 1000 1000 (declarations False False False 1000 (\<lambda>k. 0))"]
  by (simp add: resizeCanvas_def declarations_def)

text \<open>
  C1 as stated fails: on a 1000 by 1000 canvas with the full profile the floor of
  \<open>min (1000000 / 15000) 100\<close> is 66, and \<open>init\<close> creates 67 particles; on a 1024 by 768
  canvas it creates 53, not 52.
\<close>

theorem init_count_counterexample:
  "init_limits (resizeCanvas 1000 1000 (declarations False False False 1000 (\<lambda>k. 0))) = (100, 15000)
   \<and> canvas_width (resizeCanvas 1000 1000 (declarations False False False 1000 (\<lambda>k. 0)))
       * canvas_height (resizeCanvas 1000 1000 (declarations False False False 1000 (\<lambda>k. 0))) = 1000000
   \<and> nat \<lfloor>min ((1000000 :: real) / 15000) 100\<rfloor> = 66
   \<and> length (particles (init (resizeCanvas 1000 1000 (declarations False False False 1000 (\<lambda>k. 0))))) = 67
   \<and> nat \<lfloor>min ((786432 :: real) / 15000) 100\<rfloor> = 52
   \<and> length (particles (init (resizeCanvas 1024 768 (declarations False False False 1024 (\<lambda>k. 0))))) = 53"
  by (simp add: length_init init_limits_def resizeCanvas_def declarations_def)

text \<open>
  C7. When the reduced-motion preference holds, \<open>init\<close> takes \<open>maxParticles = 20\<close> and
  \<open>densityFactor = 30000\<close> whether or not the device counts as mobile, and creates at most
  20 particles whatever the canvas area.
\<close>

theorem reduced_motion_limits:
  "prefersReducedMotion w \<Longrightarrow>
     init_limits w = (20, 30000) \<and> length (particles (init w)) \<le> 20
     \<and> length (particles (init w)) = nat \<lceil>min (real (canvas_width w * canvas_height w) / 30000) 20\<rceil>"
  using length_init_le [of w] length_init [of w] by (simp add: init_limits_def)

theorem reduced_motion_limits_witness:
  "prefersReducedMotion (resizeCanvas 600 2000 (declarations True True False 600 (\<lambda>k. 0)))
   \<and> isMobile (resizeCanvas 600 2000 (declarations True True False 600 (\<lambda>k. 0)))
   \<and> init_limits (resizeCanvas 600 2000 (declarations True True False 600 (\<lambda>k. 0))) = (20, 30000)
   \<and> length (particles (init (resizeCanvas 600 2000 (declarations True True False 600 (\<lambda>k. 0))))) = 20"
  using reduced_motion_limits [of "resizeCanvas 600 2000 (declarations True True False 600 (\<lambda>k. 0))"]
  by (simp add: resizeCanvas_def declarations_def)

subsection \<open>The colour cycle: range and continuity\<close>

lemma js_rem_one_nonneg:
  assumes "0 \<le> a"
  shows "js_rem a 1 = a - real_of_int \<lfloor>a\<rfloor>" and "0 \<le> js_rem a 1" and "js_rem a 1 < 1"
proof -
  show eq: "js_rem a 1 = a - real_of_int \<lfloor>a\<rfloor>"
    using assms by (simp add: js_rem_def)
  show "0 \<le> js_rem a 1" unfolding eq by linarith
  show "js_rem a 1 < 1" unfolding eq by linarith
qed

lemma js_index_in_set: "js_index xs i = Some c \<Longrightarrow> c \<in> set xs"
  by (auto simp: js_index_def split: if_splits)

lemma interp_between:
  fixes a c :: real
  assumes "0 \<le> f" "f \<le> 1" "lo \<le> a" "a \<le> hi" "lo \<le> c" "c \<le> hi"
  shows "lo \<le> a + (c - a) * f" and "a + (c - a) * f \<le> hi"
proof -
  have eq: "a + (c - a) * f = a * (1 - f) + c * f" by (simp add: algebra_simps)
  have "lo * (1 - f) \<le> a * (1 - f)" using assms by (intro mult_right_mono) auto
  moreover have "lo * f \<le> c * f" using assms by (intro mult_right_mono) auto
  ultimately have "lo * (1 - f) + lo * f \<le> a * (1 - f) + c * f" by linarith
  then show "lo \<le> a + (c - a) * f" unfolding eq by (simp add: algebra_simps)
  have "a * (1 - f) \<le> hi * (1 - f)" using assms by (intro mult_right_mono) auto
  moreover have "c * f \<le> hi * f" using assms by (intro mult_right_mono) auto
  ultimately have "a * (1 - f) + c * f \<le> hi * (1 - f) + hi * f" by linarith
  then show "a + (c - a) * f \<le> hi" unfolding eq by (simp add: algebra_simps)
qed

lemma round_interp_between:
  fixes a c lo hi :: int
  assumes "0 \<le> f" "f \<le> 1" "lo \<le> a" "a \<le> hi" "lo \<le> c" "c \<le> hi"
  shows "lo \<le> round (real_of_int a + (real_of_int c - real_of_int a) * f)"
    and "round (real_of_int a + (real_of_int c - real_of_int a) * f) \<le> hi"
proof -
  let ?v = "real_of_int a + (real_of_int c - real_of_int a) * f"
  have 1: "real_of_int lo \<le> ?v"
    using assms by (intro interp_between(1) [where hi = "real_of_int hi"]) auto
  have 2: "?v \<le> real_of_int hi"
    using assms by (intro interp_between(2) [where lo = "real_of_int lo"]) auto
  have "round (real_of_int lo) \<le> round ?v" using 1 by (rule round_mono)
  then show "lo \<le> round ?v" by simp
  have "round ?v \<le> round (real_of_int hi)" using 2 by (rule round_mono)
  then show "round ?v \<le> hi" by simp
qed

lemma palette_channels:
  "c \<in> set sunsetColors \<Longrightarrow>
     0 \<le> c_r c \<and> c_r c \<le> 255 \<and> 0 \<le> c_g c \<and> c_g c \<le> 255 \<and> 0 \<le> c_b c \<and> c_b c \<le> 255"
  by (auto simp: sunsetColors_def)

lemma length_sunsetColors: "length sunsetColors = 7"
  by (simp add: sunsetColors_def)

text \<open>The lookup as an equation, for a sum of clock and offset that is not negative.\<close>

lemma getCurrentSunsetColor_eq:
  assumes "0 \<le> t + off"
  defines "seg \<equiv> js_rem (t + off) 1 * 6"
  shows "0 \<le> \<lfloor>seg\<rfloor>" and "\<lfloor>seg\<rfloor> \<le> 5"
    and "getCurrentSunsetColor t off =
      Some (interpolateColor (sunsetColors ! nat \<lfloor>seg\<rfloor>) (sunsetColors ! nat (\<lfloor>seg\<rfloor> + 1))
             (seg - real_of_int \<lfloor>seg\<rfloor>))"
proof -
  have p: "0 \<le> js_rem (t + off) 1" "js_rem (t + off) 1 < 1"
    using js_rem_one_nonneg [OF assms(1)] by auto
  then have s: "0 \<le> seg" "seg < 6" by (auto simp: seg_def)
  obtain k where k: "\<lfloor>js_rem (t + off) 1 * 6\<rfloor> = k" by simp
  have "real_of_int k \<le> seg" "seg < real_of_int k + 1"
    unfolding seg_def k [symmetric] by linarith+
  with s have kb: "0 \<le> k" "k \<le> 5" by linarith+
  show "0 \<le> \<lfloor>seg\<rfloor>" "\<lfloor>seg\<rfloor> \<le> 5"
    unfolding seg_def k using kb by auto
  have m: "min (k + 1) 6 = k + 1" using kb by simp
  have "getCurrentSunsetColor t off =
      Some (interpolateColor (sunsetColors ! nat k) (sunsetColors ! nat (k + 1))
             (js_rem (t + off) 1 * 6 - real_of_int k))"
    using kb m p
    by (simp add: getCurrentSunsetColor_def Let_def js_index_def length_sunsetColors k)
  then show "getCurrentSunsetColor t off =
      Some (interpolateColor (sunsetColors ! nat \<lfloor>seg\<rfloor>) (sunsetColors ! nat (\<lfloor>seg\<rfloor> + 1))
             (seg - real_of_int \<lfloor>seg\<rfloor>))"
    unfolding seg_def k .
qed

text \<open>
  C8. Whenever the clock plus the particle's offset is not negative (the clock stays in
  \<open>[0, 1)\<close> and offsets are \<open>Math.random() * 0.3\<close>), the wrapped phase lies in \<open>[0, 1)\<close>,
  the lookup returns a colour, and each of its channels is an integer between 0 and 255.
\<close>

theorem color_channels_in_range:
  assumes "0 \<le> t + off"
  shows "\<exists>c. getCurrentSunsetColor t off = Some c
           \<and> 0 \<le> c_r c \<and> c_r c \<le> 255 \<and> 0 \<le> c_g c \<and> c_g c \<le> 255 \<and> 0 \<le> c_b c \<and> c_b c \<le> 255"
proof -
  define seg where "seg = js_rem (t + off) 1 * 6"
  define f where "f = seg - real_of_int \<lfloor>seg\<rfloor>"
  define c1 where "c1 = sunsetColors ! nat \<lfloor>seg\<rfloor>"
  define c2 where "c2 = sunsetColors ! nat (\<lfloor>seg\<rfloor> + 1)"
  have idx: "0 \<le> \<lfloor>seg\<rfloor>" "\<lfloor>seg\<rfloor> \<le> 5"
    and eq: "getCurrentSunsetColor t off = Some (interpolateColor c1 c2 f)"
    using getCurrentSunsetColor_eq [OF assms] by (simp_all add: seg_def f_def c1_def c2_def)
  have f: "0 \<le> f" "f \<le> 1" unfolding f_def by linarith+
  have n1: "nat \<lfloor>seg\<rfloor> < length sunsetColors"
    and n2: "nat (\<lfloor>seg\<rfloor> + 1) < length sunsetColors"
    using idx unfolding length_sunsetColors by linarith+
  have "c1 \<in> set sunsetColors"
    unfolding c1_def using n1 by (rule nth_mem)
  moreover have "c2 \<in> set sunsetColors"
    unfolding c2_def using n2 by (rule nth_mem)
  ultimately have b: "0 \<le> c_r c1 \<and> c_r c1 \<le> 255 \<and> 0 \<le> c_g c1 \<and> c_g c1 \<le> 255 \<and> 0 \<le> c_b c1 \<and> c_b c1 \<le> 255"
    "0 \<le> c_r c2 \<and> c_r c2 \<le> 255 \<and> 0 \<le> c_g c2 \<and> c_g c2 \<le> 255 \<and> 0 \<le> c_b c2 \<and> c_b c2 \<le> 255"
    by (auto dest: palette_channels)
  have "0 \<le> c_r (interpolateColor c1 c2 f) \<and> c_r (interpolateColor c1 c2 f) \<le> 255"
    using round_interp_between [OF f, of 0 "c_r c1" 255 "c_r c2"] b by (simp add: interpolateColor_def)
  moreover have "0 \<le> c_g (interpolateColor c1 c2 f) \<and> c_g (interpolateColor c1 c2 f) \<le> 255"
    using round_interp_between [OF f, of 0 "c_g c1" 255 "c_g c2"] b by (simp add: interpolateColor_def)
  moreover have "0 \<le> c_b (interpolateColor c1 c2 f) \<and> c_b (interpolateColor c1 c2 f) \<le> 255"
    using round_interp_between [OF f, of 0 "c_b c1" 255 "c_b c2"] b by (simp add: interpolateColor_def)
  ultimately show ?thesis using eq by simp
qed

theorem color_channels_in_range_witness:
  "\<exists>c. getCurrentSunsetColor (1/2) (1/4) = Some c
           \<and> 0 \<le> c_r c \<and> c_r c \<le> 255 \<and> 0 \<le> c_g c \<and> c_g c \<le> 255 \<and> 0 \<le> c_b c \<and> c_b c \<le> 255"
  using color_channels_in_range [of "1/2" "1/4"] by simp

lemma int_chain_mono:
  fixes v :: "int \<Rightarrow> real"
  assumes step: "\<And>k. v k \<le> v (k + 1)" and "m \<le> n"
  shows "v m \<le> v n"
proof -
  have "v m \<le> v (m + int j)" for j
  proof (induction j)
    case 0
    show ?case by simp
  next
    case (Suc j)
    have e: "m + int (Suc j) = m + int j + 1" by simp
    have "v (m + int j) \<le> v (m + int j + 1)" by (rule step)
    with Suc have "v m \<le> v (m + int j + 1)" by (rule order_trans)
    then show ?case unfolding e .
  qed
  from this [of "nat (n - m)"] assms(2) show ?thesis by simp
qed

text \<open>Linear interpolation through knots that do not decrease is monotone.\<close>

lemma knots_interp_mono:
  fixes v :: "int \<Rightarrow> real"
  assumes step: "\<And>k. v k \<le> v (k + 1)" and le: "s \<le> s'"
  shows "v \<lfloor>s\<rfloor> + (v (\<lfloor>s\<rfloor> + 1) - v \<lfloor>s\<rfloor>) * (s - real_of_int \<lfloor>s\<rfloor>)
       \<le> v \<lfloor>s'\<rfloor> + (v (\<lfloor>s'\<rfloor> + 1) - v \<lfloor>s'\<rfloor>) * (s' - real_of_int \<lfloor>s'\<rfloor>)"
proof -
  define k where "k = \<lfloor>s\<rfloor>"
  define k' where "k' = \<lfloor>s'\<rfloor>"
  define f where "f = s - real_of_int k"
  define f' where "f' = s' - real_of_int k'"
  define d where "d = v (k + 1) - v k"
  define d' where "d' = v (k' + 1) - v k'"
  have f: "0 \<le> f" "f \<le> 1" unfolding f_def k_def by linarith+
  have f': "0 \<le> f'" "f' \<le> 1" unfolding f'_def k'_def by linarith+
  have d: "0 \<le> d" unfolding d_def using step [of k] by simp
  have d': "0 \<le> d'" unfolding d'_def using step [of k'] by simp
  have kk: "k \<le> k'" unfolding k_def k'_def using le by (rule floor_mono)
  have "v k + d * f \<le> v k' + d' * f'"
  proof (cases "k = k'")
    case True
    then have "d' = d" by (simp add: d_def d'_def)
    moreover have "f \<le> f'" using True le by (simp add: f_def f'_def)
    then have "d * f \<le> d * f'" using d by (rule mult_left_mono)
    ultimately show ?thesis using True by simp
  next
    case False
    with kk have "k + 1 \<le> k'" by simp
    then have *: "v (k + 1) \<le> v k'" using step int_chain_mono by blast
    have "d * f \<le> d * 1" using f d by (intro mult_left_mono) auto
    then have "v k + d * f \<le> v (k + 1)" by (simp add: d_def)
    moreover have "0 \<le> d' * f'" using d' f' by simp
    ultimately show ?thesis using * by linarith
  qed
  then show ?thesis
    by (simp add: k_def k'_def f_def f'_def d_def d'_def)
qed

lemma knots_interp_lipschitz:
  fixes v :: "int \<Rightarrow> real"
  assumes step: "\<And>k. \<bar>v (k + 1) - v k\<bar> \<le> L"
  shows "\<bar>(v \<lfloor>s\<rfloor> + (v (\<lfloor>s\<rfloor> + 1) - v \<lfloor>s\<rfloor>) * (s - real_of_int \<lfloor>s\<rfloor>))
        - (v \<lfloor>s'\<rfloor> + (v (\<lfloor>s'\<rfloor> + 1) - v \<lfloor>s'\<rfloor>) * (s' - real_of_int \<lfloor>s'\<rfloor>))\<bar>
       \<le> L * \<bar>s - s'\<bar>"
proof -
  let ?F = "\<lambda>s. v \<lfloor>s\<rfloor> + (v (\<lfloor>s\<rfloor> + 1) - v \<lfloor>s\<rfloor>) * (s - real_of_int \<lfloor>s\<rfloor>)"
  have up: "?F a + L * a \<le> ?F c + L * c" if "a \<le> c" for a c
  proof -
    have "(\<lambda>k. v k + L * real_of_int k) j \<le> (\<lambda>k. v k + L * real_of_int k) (j + 1)" for j
      using step [of j] by (simp add: algebra_simps abs_le_iff)
    from knots_interp_mono [of "\<lambda>k. v k + L * real_of_int k", OF this that]
    show ?thesis by (simp add: algebra_simps)
  qed
  have down: "L * a - ?F a \<le> L * c - ?F c" if "a \<le> c" for a c
  proof -
    have "(\<lambda>k. L * real_of_int k - v k) j \<le> (\<lambda>k. L * real_of_int k - v k) (j + 1)" for j
      using step [of j] by (simp add: algebra_simps abs_le_iff)
    from knots_interp_mono [of "\<lambda>k. L * real_of_int k - v k", OF this that]
    show ?thesis by (simp add: algebra_simps)
  qed
  show ?thesis
  proof (cases "s \<le> s'")
    case True
    from up [OF True] down [OF True] True show ?thesis
      by (simp add: abs_le_iff algebra_simps abs_if)
  next
    case False
    then have "s' \<le> s" by simp
    from up [OF this] down [OF this] False show ?thesis
      by (simp add: abs_le_iff algebra_simps abs_if)
  qed
qed

lemma round_diff_le:
  fixes x y :: real
  shows "\<bar>real_of_int (round x) - real_of_int (round y)\<bar> \<le> \<bar>x - y\<bar> + 1"
  using of_int_round_abs_le [of x] of_int_round_abs_le [of y] by linarith

lemma channel_lipschitz:
  fixes sel :: "color \<Rightarrow> int"
  assumes sel: "\<And>a c f. sel (interpolateColor a c f) =
        round (real_of_int (sel a) + (real_of_int (sel c) - real_of_int (sel a)) * f)"
    and steps: "\<And>i. i < 6 \<Longrightarrow>
        \<bar>real_of_int (sel (sunsetColors ! Suc i)) - real_of_int (sel (sunsetColors ! i))\<bar> \<le> L"
    and L: "0 \<le> L"
    and nn: "0 \<le> t1 + o1" "0 \<le> t2 + o2"
    and c1: "getCurrentSunsetColor t1 o1 = Some c1"
    and c2: "getCurrentSunsetColor t2 o2 = Some c2"
  shows "\<bar>real_of_int (sel c1) - real_of_int (sel c2)\<bar>
      \<le> 6 * L * \<bar>js_rem (t1 + o1) 1 - js_rem (t2 + o2) 1\<bar> + 1"
proof -
  define v where "v k = real_of_int (sel (sunsetColors ! nat (max 0 (min 6 k))))" for k :: int
  define F where "F s = v \<lfloor>s\<rfloor> + (v (\<lfloor>s\<rfloor> + 1) - v \<lfloor>s\<rfloor>) * (s - real_of_int \<lfloor>s\<rfloor>)" for s :: real
  have vstep: "\<bar>v (k + 1) - v k\<bar> \<le> L" for k
  proof -
    consider "k < 0" | "6 \<le> k" | "0 \<le> k" "k \<le> 5" by linarith
    then show ?thesis
    proof cases
      case 1
      then have "max 0 (min 6 (k + 1)) = 0" "max 0 (min 6 k) = 0" by auto
      then show ?thesis using L by (simp add: v_def)
    next
      case 2
      then have "max 0 (min 6 (k + 1)) = 6" "max 0 (min 6 k) = 6" by auto
      then show ?thesis using L by (simp add: v_def)
    next
      case 3
      then have e: "nat (max 0 (min 6 (k + 1))) = Suc (nat k)" "nat (max 0 (min 6 k)) = nat k"
        by auto
      have "nat k < 6" using 3 by linarith
      then show ?thesis unfolding v_def e by (rule steps)
    qed
  qed
  have val: "real_of_int (sel c) = real_of_int (round (F (js_rem (t + off) 1 * 6)))"
    if nn: "0 \<le> t + off" and c: "getCurrentSunsetColor t off = Some c" for t off c
  proof -
    define seg where "seg = js_rem (t + off) 1 * 6"
    define k where "k = \<lfloor>seg\<rfloor>"
    have kb: "0 \<le> k" "k \<le> 5"
      and eq: "getCurrentSunsetColor t off =
        Some (interpolateColor (sunsetColors ! nat k) (sunsetColors ! nat (k + 1)) (seg - real_of_int k))"
      using getCurrentSunsetColor_eq [OF nn] by (simp_all add: seg_def k_def)
    have e: "max 0 (min 6 (k + 1)) = k + 1" "max 0 (min 6 k) = k"
      using kb by auto
    have "v k = real_of_int (sel (sunsetColors ! nat k))"
      "v (k + 1) = real_of_int (sel (sunsetColors ! nat (k + 1)))"
      unfolding v_def e by (rule refl)+
    then have "F seg = real_of_int (sel (sunsetColors ! nat k))
        + (real_of_int (sel (sunsetColors ! nat (k + 1))) - real_of_int (sel (sunsetColors ! nat k)))
          * (seg - real_of_int k)"
      by (simp add: F_def k_def)
    moreover have "c = interpolateColor (sunsetColors ! nat k) (sunsetColors ! nat (k + 1)) (seg - real_of_int k)"
      using eq c by simp
    ultimately show ?thesis
      by (simp add: sel seg_def)
  qed
  let ?s1 = "js_rem (t1 + o1) 1 * 6" and ?s2 = "js_rem (t2 + o2) 1 * 6"
  have "\<bar>F ?s1 - F ?s2\<bar> \<le> L * \<bar>?s1 - ?s2\<bar>"
    unfolding F_def using vstep by (rule knots_interp_lipschitz)
  also have "\<bar>?s1 - ?s2\<bar> = 6 * \<bar>js_rem (t1 + o1) 1 - js_rem (t2 + o2) 1\<bar>"
    by (simp add: abs_if)
  finally have "\<bar>F ?s1 - F ?s2\<bar> \<le> 6 * L * \<bar>js_rem (t1 + o1) 1 - js_rem (t2 + o2) 1\<bar>"
    by (simp add: mult.assoc mult.left_commute)
  moreover have "\<bar>real_of_int (round (F ?s1)) - real_of_int (round (F ?s2))\<bar> \<le> \<bar>F ?s1 - F ?s2\<bar> + 1"
    by (rule round_diff_le)
  ultimately show ?thesis
    unfolding val [OF nn(1) c1] val [OF nn(2) c2] by linarith
qed

lemma below_six_cases: "i < 6 \<Longrightarrow> i = 0 \<or> i = 1 \<or> i = 2 \<or> i = 3 \<or> i = 4 \<or> i = (5::nat)"
  by linarith

lemma red_steps:
  "i < 6 \<Longrightarrow> \<bar>real_of_int (c_r (sunsetColors ! Suc i)) - real_of_int (c_r (sunsetColors ! i))\<bar> \<le> 75"
  by (drule below_six_cases) (auto simp: sunsetColors_def)

lemma green_steps:
  "i < 6 \<Longrightarrow> \<bar>real_of_int (c_g (sunsetColors ! Suc i)) - real_of_int (c_g (sunsetColors ! i))\<bar> \<le> 75"
  by (drule below_six_cases) (auto simp: sunsetColors_def)

lemma blue_steps:
  "i < 6 \<Longrightarrow> \<bar>real_of_int (c_b (sunsetColors ! Suc i)) - real_of_int (c_b (sunsetColors ! i))\<bar> \<le> 75"
  by (drule below_six_cases) (auto simp: sunsetColors_def)

text \<open>
  Within one turn of the cycle, that is for two phases of \<open>[0, 1)\<close> compared without passing
  through the wrap, the linear segments agree at the interior knots: each channel of the two
  samples differs by at most 450 times the distance of the phases, plus the one unit that
  \<open>Math.round\<close> can add.
\<close>

lemma color_continuous_within_turn:
  assumes "0 \<le> t1 + o1" and "0 \<le> t2 + o2"
  shows "\<exists>c1 c2. getCurrentSunsetColor t1 o1 = Some c1 \<and> getCurrentSunsetColor t2 o2 = Some c2
     \<and> \<bar>real_of_int (c_r c1) - real_of_int (c_r c2)\<bar>
          \<le> 450 * \<bar>js_rem (t1 + o1) 1 - js_rem (t2 + o2) 1\<bar> + 1
     \<and> \<bar>real_of_int (c_g c1) - real_of_int (c_g c2)\<bar>
          \<le> 450 * \<bar>js_rem (t1 + o1) 1 - js_rem (t2 + o2) 1\<bar> + 1
     \<and> \<bar>real_of_int (c_b c1) - real_of_int (c_b c2)\<bar>
          \<le> 450 * \<bar>js_rem (t1 + o1) 1 - js_rem (t2 + o2) 1\<bar> + 1"
proof -
  obtain c1 where c1: "getCurrentSunsetColor t1 o1 = Some c1"
    using getCurrentSunsetColor_eq(3) [OF assms(1)] by blast
  obtain c2 where c2: "getCurrentSunsetColor t2 o2 = Some c2"
    using getCurrentSunsetColor_eq(3) [OF assms(2)] by blast
  have "\<bar>real_of_int (c_r c1) - real_of_int (c_r c2)\<bar>
          \<le> 6 * 75 * \<bar>js_rem (t1 + o1) 1 - js_rem (t2 + o2) 1\<bar> + 1"
    by (rule channel_lipschitz [where sel = c_r, OF _ red_steps _ assms c1 c2])
       (simp_all add: interpolateColor_def)
  moreover have "\<bar>real_of_int (c_g c1) - real_of_int (c_g c2)\<bar>
          \<le> 6 * 75 * \<bar>js_rem (t1 + o1) 1 - js_rem (t2 + o2) 1\<bar> + 1"
    by (rule channel_lipschitz [where sel = c_g, OF _ green_steps _ assms c1 c2])
       (simp_all add: interpolateColor_def)
  moreover have "\<bar>real_of_int (c_b c1) - real_of_int (c_b c2)\<bar>
          \<le> 6 * 75 * \<bar>js_rem (t1 + o1) 1 - js_rem (t2 + o2) 1\<bar> + 1"
    by (rule channel_lipschitz [where sel = c_b, OF _ blue_steps _ assms c1 c2])
       (simp_all add: interpolateColor_def)
  ultimately show ?thesis using c1 c2 by simp
qed

lemma sample_zero: "getCurrentSunsetColor 0 0 = Some \<lparr>c_r = 255, c_g = 140, c_b = 66\<rparr>"
  by (simp add: getCurrentSunsetColor_def Let_def js_index_def js_rem_def sunsetColors_def
      interpolateColor_def)

lemma sample_near_one:
  "getCurrentSunsetColor 0 (5999 / 6000) = Some \<lparr>c_r = 201, c_g = 108, c_b = 77\<rparr>"
  by (simp add: getCurrentSunsetColor_def Let_def js_index_def js_rem_def sunsetColors_def
      interpolateColor_def round_def)

lemma last_segment_red:
  assumes "5 / 6 \<le> p" "p < 1"
  shows "\<exists>c. getCurrentSunsetColor 0 p = Some c \<and> c_r c \<le> 201"
proof -
  have nn: "0 \<le> 0 + p" using assms by simp
  have "\<lfloor>p\<rfloor> = 0" using assms by (simp add: floor_eq_iff)
  then have r: "js_rem (0 + p) 1 = p"
    using js_rem_one_nonneg(1) [OF nn] by simp
  have k: "\<lfloor>p * 6\<rfloor> = 5" using assms by (simp add: floor_eq_iff)
  have f: "0 \<le> p * 6 - 5" "p * 6 - 5 \<le> 1" using assms by simp_all
  have "getCurrentSunsetColor 0 p =
      Some (interpolateColor (sunsetColors ! 5) (sunsetColors ! 6) (p * 6 - 5))"
    using getCurrentSunsetColor_eq(3) [OF nn] unfolding r k by simp
  moreover have "c_r (interpolateColor (sunsetColors ! 5) (sunsetColors ! 6) (p * 6 - 5)) \<le> 201"
    using round_interp_between(2) [OF f, of 156 156 201 201]
    by (simp add: interpolateColor_def sunsetColors_def)
  ultimately show ?thesis by simp
qed

text \<open>
  At the wrap the ring is open. The red channel is at most 201 on the whole last segment and
  255 at phase 0, so the sample does not tend to the sample at 0 as the phase tends to 1.
\<close>

lemma color_not_continuous_at_wrap:
  "\<not> (\<forall>e>0. \<exists>d>0. \<forall>p. 0 \<le> p \<and> p < 1 \<and> 1 - p < d \<longrightarrow>
        \<bar>real_of_int (c_r (the (getCurrentSunsetColor 0 p)))
          - real_of_int (c_r (the (getCurrentSunsetColor 0 0)))\<bar> < e)
   \<and> getCurrentSunsetColor 0 0 = Some \<lparr>c_r = 255, c_g = 140, c_b = 66\<rparr>
   \<and> getCurrentSunsetColor 0 (5999 / 6000) = Some \<lparr>c_r = 201, c_g = 108, c_b = 77\<rparr>"
proof (intro conjI notI)
  assume H: "\<forall>e>0. \<exists>d>0. \<forall>p. 0 \<le> p \<and> p < 1 \<and> 1 - p < d \<longrightarrow>
        \<bar>real_of_int (c_r (the (getCurrentSunsetColor 0 p)))
          - real_of_int (c_r (the (getCurrentSunsetColor 0 0)))\<bar> < e"
  then obtain d :: real where d: "0 < d"
    and near: "\<And>p. 0 \<le> p \<and> p < 1 \<and> 1 - p < d \<Longrightarrow>
        \<bar>real_of_int (c_r (the (getCurrentSunsetColor 0 p)))
          - real_of_int (c_r (the (getCurrentSunsetColor 0 0)))\<bar> < 1"
    by (metis zero_less_one)
  define p where "p = max (5 / 6) (1 - d / 2)"
  have p: "5 / 6 \<le> p" "p < 1" "1 - p < d" "0 \<le> p"
    using d by (auto simp: p_def max_def)
  from last_segment_red [OF p(1,2)] obtain c
    where c: "getCurrentSunsetColor 0 p = Some c" "c_r c \<le> 201" by blast
  from near [of p] p c sample_zero
  have "\<bar>real_of_int (c_r c) - 255\<bar> < 1" by simp
  with c(2) show False by linarith
next
  show "getCurrentSunsetColor 0 0 = Some \<lparr>c_r = 255, c_g = 140, c_b = 66\<rparr>"
    by (rule sample_zero)
  show "getCurrentSunsetColor 0 (5999 / 6000) = Some \<lparr>c_r = 201, c_g = 108, c_b = 77\<rparr>"
    by (rule sample_near_one)
qed

lemma color_continuous_within_turn_example:
  "\<exists>c1 c2. getCurrentSunsetColor (1/2) 0 = Some c1 \<and> getCurrentSunsetColor (1/2) (1/1000) = Some c2
     \<and> \<bar>real_of_int (c_r c1) - real_of_int (c_r c2)\<bar> \<le> 29 / 20
     \<and> \<bar>real_of_int (c_g c1) - real_of_int (c_g c2)\<bar> \<le> 29 / 20
     \<and> \<bar>real_of_int (c_b c1) - real_of_int (c_b c2)\<bar> \<le> 29 / 20"
  using color_continuous_within_turn [of "1/2" 0 "1/2" "1/1000"]
  by (simp add: js_rem_def)

text \<open>
  C3, evaluated. The palette is meant to be a closed ring, but its closing entry repeats
  the second entry (terracotta), not the first (warm orange). On the frame where the clock
  is \<open>0.9992\<close> a particle with offset 0 is sampled at \<open>(201, 108, 77)\<close>; the next frame wraps
  the clock to 0 and the same particle is sampled at \<open>(255, 140, 66)\<close>: a jump of 54, 32 and
  11 units between two consecutive frames.
\<close>

theorem color_wrap_jump:
  "sunsetColors ! 0 = \<lparr>c_r = 255, c_g = 140, c_b = 66\<rparr>
   \<and> sunsetColors ! 1 = \<lparr>c_r = 201, c_g = 108, c_b = 77\<rparr>
   \<and> last sunsetColors = sunsetColors ! 1
   \<and> last sunsetColors \<noteq> sunsetColors ! 0
   \<and> getCurrentSunsetColor (9992 / 10000) 0 = Some \<lparr>c_r = 201, c_g = 108, c_b = 77\<rparr>
   \<and> js_rem (9992 / 10000 + 0.0008) 1 = 0
   \<and> getCurrentSunsetColor (js_rem (9992 / 10000 + 0.0008) 1) 0
        = Some \<lparr>c_r = 255, c_g = 140, c_b = 66\<rparr>
   \<and> getCurrentSunsetColor 0 (5999 / 6000) = Some \<lparr>c_r = 201, c_g = 108, c_b = 77\<rparr>"
proof -
  have w: "js_rem (9992 / 10000 + 0.0008) 1 = 0"
    by (simp add: js_rem_def)
  have "getCurrentSunsetColor (9992 / 10000) 0 = Some \<lparr>c_r = 201, c_g = 108, c_b = 77\<rparr>"
    by (simp add: getCurrentSunsetColor_def Let_def js_index_def js_rem_def sunsetColors_def
        interpolateColor_def round_def)
  then show ?thesis
    unfolding w using sample_zero sample_near_one by (simp add: sunsetColors_def)
qed

subsection \<open>What \<open>update\<close> and \<open>draw\<close> do to a particle\<close>

lemma update_keeps_attributes:
  "p_size (update w p) = p_size p \<and> density (update w p) = density p
   \<and> colorOffset (update w p) = colorOffset p \<and> pulsePhase (update w p) = pulsePhase p
   \<and> baseX (update w p) = baseX p \<and> baseY (update w p) = baseY p
   \<and> \<bar>vx (update w p)\<bar> = \<bar>vx p\<bar> \<and> \<bar>vy (update w p)\<bar> = \<bar>vy p\<bar>"
  by (simp add: update_def Let_def)

text \<open>
  C10. Over every sequence of \<open>update\<close> and \<open>draw\<close> calls on a particle, whatever the globals
  each call runs under, \<open>size\<close>, \<open>density\<close>, \<open>colorOffset\<close> and \<open>pulsePhase\<close> keep their
  values and \<open>vx\<close> and \<open>vy\<close> keep their magnitudes: \<open>update\<close> assigns only to \<open>x\<close>, \<open>y\<close> and
  the velocities, which it multiplies by \<open>-1\<close>, and \<open>draw\<close> assigns to nothing.
\<close>

theorem particle_attributes_fixed:
  "p_size (calls cs p) = p_size p \<and> density (calls cs p) = density p
   \<and> colorOffset (calls cs p) = colorOffset p \<and> pulsePhase (calls cs p) = pulsePhase p
   \<and> \<bar>vx (calls cs p)\<bar> = \<bar>vx p\<bar> \<and> \<bar>vy (calls cs p)\<bar> = \<bar>vy p\<bar>"
proof (induction cs p rule: calls.induct)
  case (1 p)
  show ?case by simp
next
  case (2 w cs p)
  then show ?case using update_keeps_attributes [of w p] by simp
next
  case (3 w cs p)
  then show ?case by simp
qed

theorem particle_attributes_fixed_witness:
  "p_size (calls [(Update, resizeCanvas 1024 768 (declarations False False False 1024 (\<lambda>k. 0))),
                  (Draw, resizeCanvas 1024 768 (declarations False False False 1024 (\<lambda>k. 0))),
                  (Update, resizeCanvas 1024 768 (declarations False False False 1024 (\<lambda>k. 0)))]
        \<lparr>p_x = Num (10239 / 10), p_y = Num 300, p_size = 2, baseX = Num 500, baseY = Num 300,
         density = 10, vx = 1 / 5, vy = 1 / 10, colorOffset = 1 / 10, pulsePhase = 1\<rparr>) = 2
   \<and> \<bar>vx (calls [(Update, resizeCanvas 1024 768 (declarations False False False 1024 (\<lambda>k. 0))),
                  (Draw, resizeCanvas 1024 768 (declarations False False False 1024 (\<lambda>k. 0))),
                  (Update, resizeCanvas 1024 768 (declarations False False False 1024 (\<lambda>k. 0)))]
        \<lparr>p_x = Num (10239 / 10), p_y = Num 300, p_size = 2, baseX = Num 500, baseY = Num 300,
         density = 10, vx = 1 / 5, vy = 1 / 10, colorOffset = 1 / 10, pulsePhase = 1\<rparr>)\<bar> = 1 / 5"
  using particle_attributes_fixed
    [of "[(Update, resizeCanvas 1024 768 (declarations False False False 1024 (\<lambda>k. 0))),
                  (Draw, resizeCanvas 1024 768 (declarations False False False 1024 (\<lambda>k. 0))),
                  (Update, resizeCanvas 1024 768 (declarations False False False 1024 (\<lambda>k. 0)))]"
        "\<lparr>p_x = Num (10239 / 10), p_y = Num 300, p_size = 2, baseX = Num 500, baseY = Num 300,
         density = 10, vx = 1 / 5, vy = 1 / 10, colorOffset = 1 / 10, pulsePhase = 1\<rparr>"]
  by simp

lemma update_drift:
  assumes "p_x p = Num a" "p_y p = Num b"
    and "150 \<le> sqrt ((mouseX w - a) * (mouseX w - a) + (mouseY w - b) * (mouseY w - b))"
  shows "p_x (update w p) = Num (a + vx p)"
    and "p_y (update w p) = Num (b + vy p)"
    and "vx (update w p) = (if a + vx p < 0 \<or> real (canvas_width w) < a + vx p then - vx p else vx p)"
    and "vy (update w p) = (if b + vy p < 0 \<or> real (canvas_height w) < b + vy p then - vy p else vy p)"
proof -
  have nn: "\<not> (mouseX w - a) * (mouseX w - a) + (mouseY w - b) * (mouseY w - b) < 0"
    by (simp add: not_less)
  have far: "\<not> sqrt ((mouseX w - a) * (mouseX w - a) + (mouseY w - b) * (mouseY w - b)) < 150"
    using assms(3) by simp
  show "p_x (update w p) = Num (a + vx p)"
    using assms(1,2) nn far by (simp add: update_def Let_def jsub_def jgt_def)
  show "p_y (update w p) = Num (b + vy p)"
    using assms(1,2) nn far by (simp add: update_def Let_def jsub_def jgt_def)
  show "vx (update w p) = (if a + vx p < 0 \<or> real (canvas_width w) < a + vx p then - vx p else vx p)"
    using assms(1,2) nn far by (simp add: update_def Let_def jsub_def jgt_def)
  show "vy (update w p) = (if b + vy p < 0 \<or> real (canvas_height w) < b + vy p then - vy p else vy p)"
    using assms(1,2) nn far by (simp add: update_def Let_def jsub_def jgt_def)
qed

text \<open>
  C9. A particle outside the pointer's radius that moves right advances by its velocity
  without any clamp. The update whose step takes it beyond \<open>canvas.width\<close> is the one that
  flips the sign of \<open>vx\<close>, and the position it leaves is the overshoot; an update whose step
  stays within the canvas leaves \<open>vx\<close> as it is.
\<close>

theorem right_boundary_reflection:
  assumes "p_x p = Num a" "p_y p = Num b"
    and "150 \<le> sqrt ((mouseX w - a) * (mouseX w - a) + (mouseY w - b) * (mouseY w - b))"
    and "0 < vx p"
  shows "p_x (update w p) = Num (a + vx p)
    \<and> (real (canvas_width w) < a + vx p \<longrightarrow> vx (update w p) = - vx p)
    \<and> (0 \<le> a + vx p \<and> a + vx p \<le> real (canvas_width w) \<longrightarrow> vx (update w p) = vx p)"
  using update_drift(1,3) [OF assms(1-3)] by auto

theorem right_boundary_reflection_witness:
  "p_x (update (resizeCanvas 1024 768 (declarations False False False 1024 (\<lambda>k. 0)))
        \<lparr>p_x = Num (10239 / 10), p_y = Num 300, p_size = 2, baseX = Num 500, baseY = Num 300,
         density = 10, vx = 1 / 5, vy = 1 / 10, colorOffset = 1 / 10, pulsePhase = 1\<rparr>)
     = Num (10241 / 10)
   \<and> vx (update (resizeCanvas 1024 768 (declarations False False False 1024 (\<lambda>k. 0)))
        \<lparr>p_x = Num (10239 / 10), p_y = Num 300, p_size = 2, baseX = Num 500, baseY = Num 300,
         density = 10, vx = 1 / 5, vy = 1 / 10, colorOffset = 1 / 10, pulsePhase = 1\<rparr>)
     = - (1 / 5)
   \<and> vx (update (resizeCanvas 1024 768 (declarations False False False 1024 (\<lambda>k. 0)))
        \<lparr>p_x = Num 500, p_y = Num 300, p_size = 2, baseX = Num 500, baseY = Num 300,
         density = 10, vx = 1 / 5, vy = 1 / 10, colorOffset = 1 / 10, pulsePhase = 1\<rparr>)
     = 1 / 5"
proof -
  let ?w = "resizeCanvas 1024 768 (declarations False False False 1024 (\<lambda>k. 0))"
  let ?p = "\<lparr>p_x = Num (10239 / 10), p_y = Num 300, p_size = 2, baseX = Num 500, baseY = Num 300,
         density = 10, vx = 1 / 5, vy = 1 / 10, colorOffset = 1 / 10, pulsePhase = 1 :: real\<rparr>"
  let ?q = "\<lparr>p_x = Num 500, p_y = Num 300, p_size = 2, baseX = Num 500, baseY = Num 300,
         density = 10, vx = 1 / 5, vy = 1 / 10, colorOffset = 1 / 10, pulsePhase = 1 :: real\<rparr>"
  have m: "mouseX ?w = 0" "mouseY ?w = 0" "canvas_width ?w = 1024"
    by (simp_all add: resizeCanvas_def declarations_def)
  have dp: "150 \<le> sqrt ((mouseX ?w - 10239 / 10) * (mouseX ?w - 10239 / 10)
      + (mouseY ?w - 300) * (mouseY ?w - 300))"
    unfolding m by (rule real_le_rsqrt) simp
  have dq: "150 \<le> sqrt ((mouseX ?w - 500) * (mouseX ?w - 500)
      + (mouseY ?w - 300) * (mouseY ?w - 300))"
    unfolding m by (rule real_le_rsqrt) simp
  from right_boundary_reflection [of ?p "10239 / 10" 300 ?w, OF _ _ dp]
    right_boundary_reflection [of ?q 500 300 ?w, OF _ _ dq]
  show ?thesis by (simp add: m)
qed

lemma update_at_pointer:
  assumes "p_x p = Num (mouseX w)" "p_y p = Num (mouseY w)"
  shows "p_x (update w p) = NaN" and "p_y (update w p) = NaN"
  using assms by (simp_all add: update_def Let_def jsub_def)

lemma update_NaN_stays:
  assumes "p_x p = NaN"
  shows "p_x (update w p) = NaN"
proof -
  have "jadd (jmul NaN NaN) v = NaN" for v by (cases v) simp_all
  then show ?thesis
    using assms by (simp add: update_def Let_def jsub_def)
qed

text \<open>
  C2, evaluated. \<open>update\<close> has no case for a zero distance. With the pointer variables at
  their initial \<open>(0, 0)\<close> and a particle created at \<open>(0, 0)\<close> (\<open>Math.random()\<close> returned 0 twice),
  \<open>dx / distance\<close> is \<open>0 / 0\<close>, the distance 0 is below 150, and both coordinates become NaN.
\<close>

theorem update_zero_distance_gives_NaN:
  "p_x (fst (new_Particle (resizeCanvas 1024 768 (declarations False False False 1024 (\<lambda>k. 0))))) = Num 0
   \<and> p_y (fst (new_Particle (resizeCanvas 1024 768 (declarations False False False 1024 (\<lambda>k. 0))))) = Num 0
   \<and> mouseX (resizeCanvas 1024 768 (declarations False False False 1024 (\<lambda>k. 0))) = 0
   \<and> mouseY (resizeCanvas 1024 768 (declarations False False False 1024 (\<lambda>k. 0))) = 0
   \<and> p_x (update (resizeCanvas 1024 768 (declarations False False False 1024 (\<lambda>k. 0)))
            (fst (new_Particle (resizeCanvas 1024 768 (declarations False False False 1024 (\<lambda>k. 0)))))) = NaN
   \<and> p_y (update (resizeCanvas 1024 768 (declarations False False False 1024 (\<lambda>k. 0)))
            (fst (new_Particle (resizeCanvas 1024 768 (declarations False False False 1024 (\<lambda>k. 0)))))) = NaN"
  by (simp add: update_def Let_def jsub_def new_Particle_def resizeCanvas_def declarations_def)

subsection \<open>One frame never throws\<close>

declare connect_inner.simps [simp del]
declare connect_outer.simps [simp del]

lemma lookup_defined:
  "0 \<le> t + off \<Longrightarrow> \<exists>c. getCurrentSunsetColor t off = Some c"
  using getCurrentSunsetColor_eq(3) by blast

lemma update_reads_only:
  "colorOffset (update w p) = colorOffset p"
  by (simp add: update_keeps_attributes)

lemma offsets_transfer:
  assumes "map colorOffset ps = map colorOffset qs" and "\<forall>p \<in> set qs. 0 \<le> colorOffset p"
  shows "\<forall>p \<in> set ps. 0 \<le> colorOffset p"
proof -
  have "set (map colorOffset ps) = set (map colorOffset qs)" using assms(1) by simp
  then have e: "colorOffset ` set ps = colorOffset ` set qs" by simp
  show ?thesis
  proof
    fix p assume "p \<in> set ps"
    then have "colorOffset p \<in> colorOffset ` set qs" unfolding e [symmetric] by (rule imageI)
    then obtain q where "q \<in> set qs" "colorOffset p = colorOffset q" by (rule imageE)
    with assms(2) show "0 \<le> colorOffset p" by simp
  qed
qed

lemma updateAndDraw_ok:
  assumes i: "i < length (particles w)" and t: "0 \<le> colorTime w"
    and offs: "\<forall>p \<in> set (particles w). 0 \<le> colorOffset p"
  shows "\<exists>ps cs. updateAndDraw i w = Some (w\<lparr>particles := ps, ctx := cs\<rparr>)
           \<and> map colorOffset ps = map colorOffset (particles w)"
proof -
  let ?p = "update w (particles w ! i)"
  let ?ps = "(particles w)[i := ?p]"
  have "0 \<le> colorOffset (particles w ! i)" using offs i by simp
  then have "0 \<le> colorTime w + colorOffset ?p" using t by (simp add: update_reads_only)
  then obtain c where c: "getCurrentSunsetColor (colorTime w) (colorOffset ?p) = Some c"
    using lookup_defined by blast
  have m: "map colorOffset ?ps = map colorOffset (particles w)"
    using i by (simp add: map_update update_reads_only list_update_same_conv)
  obtain cs where "draw (w\<lparr>particles := ?ps\<rparr>) ?p = Some cs"
    using c by (simp add: draw_def Let_def)
  then have "updateAndDraw i w = Some (w\<lparr>particles := ?ps, ctx := ctx w @ cs\<rparr>)"
    using i by (simp add: updateAndDraw_def Let_def)
  with m show ?thesis by blast
qed

lemma forEachIndex_ok:
  assumes "\<forall>i \<in> set js. i < length (particles w)" and "0 \<le> colorTime w"
    and "\<forall>p \<in> set (particles w). 0 \<le> colorOffset p"
  shows "\<exists>ps cs. forEachIndex js w = Some (w\<lparr>particles := ps, ctx := cs\<rparr>)
           \<and> map colorOffset ps = map colorOffset (particles w)"
  using assms
proof (induction js arbitrary: w)
  case Nil
  have "w = w\<lparr>particles := particles w, ctx := ctx w\<rparr>" by simp
  then show ?case by (metis forEachIndex.simps(1))
next
  case (Cons i js)
  from Cons.prems obtain ps cs
    where 1: "updateAndDraw i w = Some (w\<lparr>particles := ps, ctx := cs\<rparr>)"
      and m: "map colorOffset ps = map colorOffset (particles w)"
    using updateAndDraw_ok [of i w] by auto
  let ?w = "w\<lparr>particles := ps, ctx := cs\<rparr>"
  have len: "length ps = length (particles w)" using m by (rule map_eq_imp_length_eq)
  have "\<forall>j \<in> set js. j < length (particles ?w)" using Cons.prems(1) len by simp
  moreover have "0 \<le> colorTime ?w" using Cons.prems(2) by simp
  moreover have "\<forall>p \<in> set (particles ?w). 0 \<le> colorOffset p"
    using offsets_transfer [OF m Cons.prems(3)] by simp
  ultimately obtain ps' cs'
    where 2: "forEachIndex js ?w = Some (?w\<lparr>particles := ps', ctx := cs'\<rparr>)"
      and m': "map colorOffset ps' = map colorOffset (particles ?w)"
    using Cons.IH [of ?w] by blast
  have "forEachIndex (i # js) w = Some (w\<lparr>particles := ps', ctx := cs'\<rparr>)"
    using 1 2 by simp
  moreover have "map colorOffset ps' = map colorOffset (particles w)"
    using m m' by simp
  ultimately show ?case by blast
qed

lemma connectPair_ok:
  assumes "a < length (particles w)" "b < length (particles w)" "0 \<le> colorTime w"
    and "\<forall>p \<in> set (particles w). 0 \<le> colorOffset p"
  shows "\<exists>cs. connectPair w a b = Some cs"
proof -
  have "0 \<le> colorTime w + colorOffset (particles w ! a)"
    "0 \<le> colorTime w + colorOffset (particles w ! b)"
    using assms by (simp_all add: add_nonneg_nonneg)
  then obtain ca cb where "getCurrentSunsetColor (colorTime w) (colorOffset (particles w ! a)) = Some ca"
    "getCurrentSunsetColor (colorTime w) (colorOffset (particles w ! b)) = Some cb"
    using lookup_defined by blast
  then show ?thesis by (simp add: connectPair_def Let_def)
qed

lemma connect_inner_ok:
  assumes "a < length (particles w)" "0 \<le> colorTime w"
    and "\<forall>p \<in> set (particles w). 0 \<le> colorOffset p"
  shows "\<exists>r. connect_inner w a b acc = Some r"
  using assms
proof (induction w a b acc rule: connect_inner.induct)
  case (1 w a b acc)
  show ?case
  proof (cases "b < length (particles w)")
    case True
    then obtain cs where cs: "connectPair w a b = Some cs"
      using connectPair_ok "1.prems" by blast
    from "1.IH" [OF True cs "1.prems"] obtain r where "connect_inner w a (Suc b) (acc @ cs) = Some r" ..
    with True cs show ?thesis by (subst connect_inner.simps) simp
  next
    case False
    then show ?thesis by (subst connect_inner.simps) simp
  qed
qed

lemma connect_outer_ok:
  assumes "0 \<le> colorTime w" and "\<forall>p \<in> set (particles w). 0 \<le> colorOffset p"
  shows "\<exists>r. connect_outer w a acc = Some r"
  using assms
proof (induction w a acc rule: connect_outer.induct)
  case (1 w a acc)
  show ?case
  proof (cases "a < length (particles w)")
    case True
    then obtain acc' where i: "connect_inner w a (Suc a) acc = Some acc'"
      using connect_inner_ok "1.prems" by blast
    from "1.IH" [OF True i "1.prems"] obtain r where "connect_outer w (Suc a) acc' = Some r" ..
    with True i show ?thesis by (subst connect_outer.simps) simp
  next
    case False
    then show ?thesis by (subst connect_outer.simps) simp
  qed
qed

lemma connectParticles_ok:
  assumes "0 \<le> colorTime w" and "\<forall>p \<in> set (particles w). 0 \<le> colorOffset p"
  shows "\<exists>cs. connectParticles w = Some (w\<lparr>ctx := cs\<rparr>)"
proof -
  obtain r where "connect_outer w 0 [] = Some r" using connect_outer_ok [OF assms] by blast
  then have "connectParticles w = Some (w\<lparr>ctx := ctx w @ r\<rparr>)"
    by (simp add: connectParticles_def)
  then show ?thesis by blast
qed

lemma clock_stays_nonneg: "0 \<le> t \<Longrightarrow> 0 \<le> js_rem (t + 0.0008) 1"
  by (rule js_rem_one_nonneg(2)) simp

text \<open>One accepted frame.\<close>

lemma animate_visible:
  assumes vis: "isPageVisible w" "isCanvasVisible w" and t: "0 \<le> colorTime w"
    and offs: "\<forall>p \<in> set (particles w). 0 \<le> colorOffset p"
  shows "\<exists>ps cs. animate w =
      Some (w\<lparr>particles := ps, ctx := cs, colorTime := js_rem (colorTime w + 0.0008) 1,
              isAnimating := True, frames := frames w @ [nextHandle w],
              nextHandle := Suc (nextHandle w), animationId := Some (nextHandle w)\<rparr>)
    \<and> map colorOffset ps = map colorOffset (particles w)"
proof -
  let ?w3 = "w\<lparr>isAnimating := True,
      ctx := ctx w @ [ClearRect 0 0 (real (canvas_width w)) (real (canvas_height w))],
      colorTime := js_rem (colorTime w + 0.0008) 1\<rparr>"
  have t3: "0 \<le> colorTime ?w3" using clock_stays_nonneg [OF t] by simp
  have o3: "\<forall>p \<in> set (particles ?w3). 0 \<le> colorOffset p" using offs by simp
  have "\<forall>i \<in> set [0..<length (particles ?w3)]. i < length (particles ?w3)" by simp
  from forEachIndex_ok [OF this t3 o3] obtain ps cs
    where 4: "forEachIndex [0..<length (particles ?w3)] ?w3 = Some (?w3\<lparr>particles := ps, ctx := cs\<rparr>)"
      and m: "map colorOffset ps = map colorOffset (particles w)"
    by auto
  let ?w4 = "?w3\<lparr>particles := ps, ctx := cs\<rparr>"
  have "0 \<le> colorTime ?w4" using t3 by simp
  moreover have "\<forall>p \<in> set (particles ?w4). 0 \<le> colorOffset p"
    using offsets_transfer [OF m offs] by simp
  ultimately obtain cs' where 5: "connectParticles ?w4 = Some (?w4\<lparr>ctx := cs'\<rparr>)"
    using connectParticles_ok [of ?w4] by blast
  have "animate w =
      Some (w\<lparr>particles := ps, ctx := cs', colorTime := js_rem (colorTime w + 0.0008) 1,
              isAnimating := True, frames := frames w @ [nextHandle w],
              nextHandle := Suc (nextHandle w), animationId := Some (nextHandle w)\<rparr>)"
    using vis 4 5 by (simp add: animate_def Let_def requestAnimationFrame_def)
  with m show ?thesis by blast
qed

subsection \<open>The controller's invariant\<close>

lemma controller_inv_iff:
  "controller_inv w \<longleftrightarrow>
     0 < nextHandle w \<and> 0 \<le> colorTime w
     \<and> (\<forall>p \<in> set (particles w). 0 \<le> colorOffset p)
     \<and> (\<forall>k. 0 \<le> randoms w k)
     \<and> (isAnimating w \<longrightarrow> isPageVisible w \<and> isCanvasVisible w
            \<and> (\<exists>h. h \<noteq> 0 \<and> animationId w = Some h \<and> frames w = [h]))
     \<and> (\<not> isAnimating w \<longrightarrow> frames w = [] \<and> animationId w = None)"
  by (auto simp: controller_inv_def split: option.splits)

lemma animate_establishes:
  assumes "0 < nextHandle w" "0 \<le> colorTime w" "\<forall>p \<in> set (particles w). 0 \<le> colorOffset p"
    "\<forall>k. 0 \<le> randoms w k" "isPageVisible w" "isCanvasVisible w" "frames w = []"
  shows "\<exists>w'. animate w = Some w' \<and> controller_inv w' \<and> isAnimating w'
     \<and> frames w' = [nextHandle w] \<and> animationId w' = Some (nextHandle w)
     \<and> mouseX w' = mouseX w \<and> mouseY w' = mouseY w
     \<and> isPageVisible w' \<and> isCanvasVisible w'"
proof -
  from animate_visible [OF assms(5,6,2,3)] obtain ps cs
    where a: "animate w =
      Some (w\<lparr>particles := ps, ctx := cs, colorTime := js_rem (colorTime w + 0.0008) 1,
              isAnimating := True, frames := frames w @ [nextHandle w],
              nextHandle := Suc (nextHandle w), animationId := Some (nextHandle w)\<rparr>)"
      and m: "map colorOffset ps = map colorOffset (particles w)"
    by blast
  have "\<forall>p \<in> set ps. 0 \<le> colorOffset p" using offsets_transfer [OF m assms(3)] .
  then show ?thesis
    using a assms clock_stays_nonneg [OF assms(2)] by (simp add: controller_inv_iff)
qed

lemma startAnimation_inv:
  assumes "controller_inv w"
  shows "\<exists>w'. startAnimation w = Some w' \<and> controller_inv w'
     \<and> mouseX w' = mouseX w \<and> mouseY w' = mouseY w
     \<and> isPageVisible w' = isPageVisible w \<and> isCanvasVisible w' = isCanvasVisible w
     \<and> (isPageVisible w \<and> isCanvasVisible w \<longrightarrow> isAnimating w')"
proof (cases "\<not> isAnimating w \<and> isPageVisible w \<and> isCanvasVisible w")
  case True
  with assms have "0 < nextHandle w" "0 \<le> colorTime w" "\<forall>p \<in> set (particles w). 0 \<le> colorOffset p"
    "\<forall>k. 0 \<le> randoms w k" "isPageVisible w" "isCanvasVisible w" "frames w = []"
    by (simp_all add: controller_inv_iff)
  from animate_establishes [OF this] True show ?thesis
    by (auto simp: startAnimation_def)
next
  case False
  with assms show ?thesis by (auto simp: startAnimation_def)
qed

lemma stopAnimation_inv:
  assumes "controller_inv w"
  shows "controller_inv (stopAnimation (w\<lparr>isPageVisible := u, isCanvasVisible := v\<rparr>))"
    and "frames (stopAnimation (w\<lparr>isPageVisible := u, isCanvasVisible := v\<rparr>)) = []"
    and "mouseX (stopAnimation (w\<lparr>isPageVisible := u, isCanvasVisible := v\<rparr>)) = mouseX w"
    and "mouseY (stopAnimation (w\<lparr>isPageVisible := u, isCanvasVisible := v\<rparr>)) = mouseY w"
  using assms
  by (auto simp: controller_inv_iff stopAnimation_def cancelAnimationFrame_def Let_def
      split: option.splits if_splits)

lemma stopAnimation_plain:
  assumes "controller_inv w"
  shows "controller_inv (stopAnimation w)" and "frames (stopAnimation w) = []"
    and "mouseX (stopAnimation w) = mouseX w" and "mouseY (stopAnimation w) = mouseY w"
  using stopAnimation_inv [OF assms, where u = "isPageVisible w" and v = "isCanvasVisible w"]
  by simp_all

text \<open>A visibility flag changes and the controller is asked again.\<close>

lemma reevaluate_inv:
  assumes "controller_inv w" and w1: "w1 = w\<lparr>isPageVisible := u, isCanvasVisible := v\<rparr>"
  shows "\<exists>w'. (if u \<and> v then startAnimation w1 else Some (stopAnimation w1)) = Some w'
     \<and> controller_inv w' \<and> mouseX w' = mouseX w \<and> mouseY w' = mouseY w"
proof (cases "u \<and> v")
  case True
  have "controller_inv w1"
    using assms(1) True by (auto simp: controller_inv_iff w1)
  from startAnimation_inv [OF this] True show ?thesis by (auto simp: w1)
next
  case False
  then show ?thesis
    using stopAnimation_inv [OF assms(1), where u = u and v = v] by (auto simp: w1)
qed

lemma onVisibilityChange_inv:
  assumes "controller_inv w"
  shows "\<exists>w'. onVisibilityChange hidden w = Some w' \<and> controller_inv w'
     \<and> mouseX w' = mouseX w \<and> mouseY w' = mouseY w"
proof -
  have e: "w\<lparr>isPageVisible := \<not> hidden\<rparr> = w\<lparr>isPageVisible := \<not> hidden, isCanvasVisible := isCanvasVisible w\<rparr>"
    by simp
  from reevaluate_inv [OF assms e] show ?thesis
    by (simp add: onVisibilityChange_def Let_def)
qed

lemma onIntersection_inv:
  assumes "controller_inv w"
  shows "\<exists>w'. onIntersection entries w = Some w' \<and> controller_inv w'
     \<and> mouseX w' = mouseX w \<and> mouseY w' = mouseY w"
  using assms
proof (induction entries arbitrary: w)
  case Nil
  then show ?case by simp
next
  case (Cons e entries)
  have eq: "w\<lparr>isCanvasVisible := e\<rparr> = w\<lparr>isPageVisible := isPageVisible w, isCanvasVisible := e\<rparr>"
    by simp
  from reevaluate_inv [OF Cons.prems eq]
  obtain w2 where 1: "(if e \<and> isPageVisible w then startAnimation (w\<lparr>isCanvasVisible := e\<rparr>)
        else Some (stopAnimation (w\<lparr>isCanvasVisible := e\<rparr>))) = Some w2"
    and 2: "controller_inv w2" "mouseX w2 = mouseX w" "mouseY w2 = mouseY w"
    by (auto simp: conj_commute)
  from Cons.IH [OF 2(1)] obtain w' where "onIntersection entries w2 = Some w'"
    "controller_inv w'" "mouseX w' = mouseX w2" "mouseY w' = mouseY w2" by blast
  with 1 2 show ?case by (simp add: Let_def)
qed

lemma push_new_Particle_frame:
  "push_new_Particle w =
     w\<lparr>particles := particles w @ [fst (new_Particle w)], randomsUsed := randomsUsed w + 8\<rparr>"
  by (simp add: push_new_Particle_def new_Particle_def Let_def)

lemma new_Particle_offset:
  "0 \<le> randoms w (randomsUsed w + 6) \<Longrightarrow> 0 \<le> colorOffset (fst (new_Particle w))"
  by (simp add: new_Particle_def Let_def)

lemma init_loop_frame:
  assumes "\<forall>j. 0 \<le> randoms w j" and "\<forall>p \<in> set (particles w). 0 \<le> colorOffset p"
  shows "\<exists>ps k. init_loop n i w = w\<lparr>particles := ps, randomsUsed := k\<rparr>
           \<and> (\<forall>p \<in> set ps. 0 \<le> colorOffset p)"
  using assms
proof (induction n i w rule: init_loop.induct)
  case (1 n i w)
  show ?case
  proof (cases "real i < n")
    case True
    define p where "p = fst (new_Particle w)"
    have p: "push_new_Particle w = w\<lparr>particles := particles w @ [p], randomsUsed := randomsUsed w + 8\<rparr>"
      unfolding p_def by (rule push_new_Particle_frame)
    have "0 \<le> colorOffset p"
      unfolding p_def using "1.prems"(1) by (intro new_Particle_offset) simp
    then have "\<forall>j. 0 \<le> randoms (push_new_Particle w) j"
      "\<forall>q \<in> set (particles (push_new_Particle w)). 0 \<le> colorOffset q"
      using "1.prems" p by auto
    from "1.IH" [OF True this] obtain ps k
      where "init_loop n (Suc i) (push_new_Particle w) = push_new_Particle w\<lparr>particles := ps, randomsUsed := k\<rparr>"
        "\<forall>p \<in> set ps. 0 \<le> colorOffset p" by blast
    then have "init_loop n i w = w\<lparr>particles := ps, randomsUsed := k\<rparr>"
      using True p by (subst init_loop.simps) simp
    with \<open>\<forall>p \<in> set ps. 0 \<le> colorOffset p\<close> show ?thesis by blast
  next
    case False
    have "w = w\<lparr>particles := particles w, randomsUsed := randomsUsed w\<rparr>" by simp
    then have "init_loop n i w = w\<lparr>particles := particles w, randomsUsed := randomsUsed w\<rparr>"
      using False by (subst init_loop.simps) simp
    with "1.prems"(2) show ?thesis by blast
  qed
qed

lemma init_frame:
  assumes "\<forall>j. 0 \<le> randoms w j"
  shows "\<exists>ps k. init w = w\<lparr>particles := ps, randomsUsed := k\<rparr> \<and> (\<forall>p \<in> set ps. 0 \<le> colorOffset p)"
proof -
  have "\<forall>j. 0 \<le> randoms (w\<lparr>particles := []\<rparr>) j"
    "\<forall>p \<in> set (particles (w\<lparr>particles := []\<rparr>)). 0 \<le> colorOffset p"
    using assms by simp_all
  from init_loop_frame [OF this] show ?thesis
    by (simp add: init_def Let_def)
qed

lemma onResize_inv:
  assumes "controller_inv w"
  shows "controller_inv (onResize iw ih w)" and "mouseX (onResize iw ih w) = mouseX w"
    and "mouseY (onResize iw ih w) = mouseY w"
proof -
  let ?w = "resizeCanvas iw ih w"
  have "\<forall>j. 0 \<le> randoms ?w j" using assms by (simp add: controller_inv_iff resizeCanvas_def)
  from init_frame [OF this] obtain ps k
    where i: "init ?w = ?w\<lparr>particles := ps, randomsUsed := k\<rparr>"
      and o: "\<forall>p \<in> set ps. 0 \<le> colorOffset p" by blast
  show "controller_inv (onResize iw ih w)"
    using assms o unfolding onResize_def i by (simp add: controller_inv_iff resizeCanvas_def)
  show "mouseX (onResize iw ih w) = mouseX w" "mouseY (onResize iw ih w) = mouseY w"
    unfolding onResize_def i by (simp_all add: resizeCanvas_def)
qed

lemma onAnimationFrame_inv:
  assumes "controller_inv w"
  shows "\<exists>w'. onAnimationFrame w = Some w' \<and> controller_inv w'
     \<and> mouseX w' = mouseX w \<and> mouseY w' = mouseY w"
proof (cases "frames w")
  case Nil
  with assms show ?thesis by (simp add: onAnimationFrame_def)
next
  case (Cons h hs)
  with assms have run: "isAnimating w" and hs: "hs = []"
    by (auto simp: controller_inv_iff split: if_splits option.splits)
  let ?w = "w\<lparr>frames := hs\<rparr>"
  have "0 < nextHandle ?w" "0 \<le> colorTime ?w" "\<forall>p \<in> set (particles ?w). 0 \<le> colorOffset p"
    "\<forall>k. 0 \<le> randoms ?w k" "isPageVisible ?w" "isCanvasVisible ?w" "frames ?w = []"
    using assms run hs by (simp_all add: controller_inv_iff)
  from animate_establishes [OF this] Cons show ?thesis
    by (auto simp: onAnimationFrame_def)
qed

lemma handle_inv:
  assumes "controller_inv w" and "handle e w = Some w'"
  shows "controller_inv w'"
    and "\<not> pointer_event e \<Longrightarrow> mouseX w' = mouseX w \<and> mouseY w' = mouseY w"
proof -
  have "controller_inv w' \<and> (\<not> pointer_event e \<longrightarrow> mouseX w' = mouseX w \<and> mouseY w' = mouseY w)"
  proof (cases e)
    case (MouseMove cx cy)
    with assms show ?thesis
      by (auto simp: handleMouseMove_def controller_inv_iff split: if_splits)
  next
    case (TouchMove ts)
    with assms show ?thesis
      by (auto simp: handleTouchMove_def controller_inv_iff split: if_splits list.splits)
  next
    case (VisibilityChange hidden)
    with assms onVisibilityChange_inv [OF assms(1), of hidden] show ?thesis by auto
  next
    case (Intersection entries)
    with assms onIntersection_inv [OF assms(1), of entries] show ?thesis by auto
  next
    case (Resize iw ih)
    with assms onResize_inv [OF assms(1), of iw ih] show ?thesis by auto
  next
    case AnimationFrame
    with assms onAnimationFrame_inv [OF assms(1)] show ?thesis by auto
  next
    case BeforeUnload
    with assms stopAnimation_plain [OF assms(1)] show ?thesis by auto
  qed
  then show "controller_inv w'"
    and "\<not> pointer_event e \<Longrightarrow> mouseX w' = mouseX w \<and> mouseY w' = mouseY w" by auto
qed

lemma handle_progress:
  assumes "controller_inv w" and "e \<noteq> TouchMove []"
  shows "\<exists>w'. handle e w = Some w'"
proof (cases e)
  case (TouchMove ts)
  with assms(2) show ?thesis
    by (cases ts) (auto simp: handleTouchMove_def)
next
  case (VisibilityChange hidden)
  with onVisibilityChange_inv [OF assms(1), of hidden] show ?thesis by auto
next
  case (Intersection entries)
  with onIntersection_inv [OF assms(1), of entries] show ?thesis by auto
next
  case AnimationFrame
  with onAnimationFrame_inv [OF assms(1)] show ?thesis by auto
qed simp_all

lemma run_inv:
  assumes "controller_inv w" and "run es w = Some w'"
  shows "controller_inv w'"
    and "\<forall>e \<in> set es. \<not> pointer_event e \<Longrightarrow> mouseX w' = mouseX w \<and> mouseY w' = mouseY w"
proof -
  have "controller_inv w'
      \<and> ((\<forall>e \<in> set es. \<not> pointer_event e) \<longrightarrow> mouseX w' = mouseX w \<and> mouseY w' = mouseY w)"
    using assms
  proof (induction es arbitrary: w)
    case Nil
    then show ?case by simp
  next
    case (Cons e es)
    from Cons.prems(2) obtain w1 where 1: "handle e w = Some w1" and 2: "run es w1 = Some w'"
      by (auto split: option.splits)
    from handle_inv [OF Cons.prems(1) 1] Cons.IH [OF _ 2] show ?case by auto
  qed
  then show "controller_inv w'"
    and "\<forall>e \<in> set es. \<not> pointer_event e \<Longrightarrow> mouseX w' = mouseX w \<and> mouseY w' = mouseY w"
    by auto
qed

lemma run_progress:
  assumes "controller_inv w" and "TouchMove [] \<notin> set es"
  shows "\<exists>w'. run es w = Some w'"
  using assms
proof (induction es arbitrary: w)
  case Nil
  then show ?case by simp
next
  case (Cons e es)
  then obtain w1 where 1: "handle e w = Some w1"
    using handle_progress [of w e] by auto
  from handle_inv(1) [OF Cons.prems(1) 1] Cons.IH [of w1] Cons.prems(2) 1
  show ?case by auto
qed

lemma script_inv:
  assumes "\<forall>k. 0 \<le> rnd k"
  shows "\<exists>s0. script mobileAgent reducedMotion hidden innerWidth innerHeight rnd = Some s0
     \<and> controller_inv s0 \<and> mouseX s0 = 0 \<and> mouseY s0 = 0"
proof -
  let ?d = "declarations mobileAgent reducedMotion hidden innerWidth rnd"
  have d: "controller_inv ?d" "mouseX ?d = 0" "mouseY ?d = 0"
    using assms by (simp_all add: controller_inv_iff declarations_def)
  have "controller_inv (onResize innerWidth innerHeight ?d)"
    "mouseX (onResize innerWidth innerHeight ?d) = 0"
    "mouseY (onResize innerWidth innerHeight ?d) = 0"
    using onResize_inv [OF d(1), of innerWidth innerHeight] d(2,3) by simp_all
  then show ?thesis
    using startAnimation_inv [of "onResize innerWidth innerHeight ?d"]
    by (auto simp: script_def onResize_def)
qed

subsection \<open>Start, stop and the pointer before the first event\<close>

lemma script_visible:
  assumes "\<forall>k. 0 \<le> rnd k"
    and "script mobileAgent reducedMotion hidden innerWidth innerHeight rnd = Some s0"
  shows "isPageVisible s0 = (\<not> hidden)" and "isCanvasVisible s0"
proof -
  let ?d = "declarations mobileAgent reducedMotion hidden innerWidth rnd"
  have d: "controller_inv ?d"
    using assms(1) by (simp add: controller_inv_iff declarations_def)
  from init_frame [of "resizeCanvas innerWidth innerHeight ?d"] assms(1) obtain ps k
    where i: "init (resizeCanvas innerWidth innerHeight ?d)
        = resizeCanvas innerWidth innerHeight ?d\<lparr>particles := ps, randomsUsed := k\<rparr>"
    by (auto simp: resizeCanvas_def declarations_def)
  have "controller_inv (init (resizeCanvas innerWidth innerHeight ?d))"
    using onResize_inv(1) [OF d] by (simp add: onResize_def)
  from startAnimation_inv [OF this] assms(2)
  have "isPageVisible s0 = isPageVisible (init (resizeCanvas innerWidth innerHeight ?d))"
    "isCanvasVisible s0 = isCanvasVisible (init (resizeCanvas innerWidth innerHeight ?d))"
    by (auto simp: script_def)
  then show "isPageVisible s0 = (\<not> hidden)" and "isCanvasVisible s0"
    unfolding i by (simp_all add: resizeCanvas_def declarations_def)
qed

lemma stop_when_stopped:
  assumes "controller_inv w" and "\<not> isAnimating w"
  shows "stopAnimation w = w"
proof -
  have "animationId w = None" using assms by (simp add: controller_inv_iff)
  then have "stopAnimation w = w\<lparr>isAnimating := False\<rparr>"
    by (simp add: stopAnimation_def)
  also have "\<dots> = w" using assms(2) by simp
  finally show ?thesis .
qed

text \<open>
  C6. In every state the script reaches from its start through any sequence of events, at
  most one animation-frame request for \<open>animate\<close> is pending. With both visibility flags
  set, \<open>startAnimation\<close> returns, a second call right after it changes nothing, and exactly
  one request is pending. \<open>stopAnimation\<close> leaves no pending request and no handle, changes
  nothing when the loop is already stopped, and is idempotent.
\<close>

theorem start_stop_idempotent:
  assumes "\<forall>k. 0 \<le> rnd k \<and> rnd k < 1"
    and "script mobileAgent reducedMotion hidden innerWidth innerHeight rnd = Some s0"
    and "run es s0 = Some w"
  shows "length (frames w) \<le> 1
    \<and> (isPageVisible w \<and> isCanvasVisible w \<longrightarrow>
         (\<exists>w1. startAnimation w = Some w1 \<and> startAnimation w1 = Some w1
               \<and> isAnimating w1 \<and> length (frames w1) = 1))
    \<and> (\<not> isAnimating w \<longrightarrow> stopAnimation w = w)
    \<and> frames (stopAnimation w) = [] \<and> \<not> isAnimating (stopAnimation w)
    \<and> animationId (stopAnimation w) = None
    \<and> stopAnimation (stopAnimation w) = stopAnimation w"
proof -
  have "\<forall>k. 0 \<le> rnd k" using assms(1) by simp
  from script_inv [OF this, of mobileAgent reducedMotion hidden innerWidth innerHeight] assms(2)
  have "controller_inv s0" by simp
  then have inv: "controller_inv w" using assms(3) by (rule run_inv(1))
  have one: "length (frames w) \<le> 1"
    using inv by (auto simp: controller_inv_iff)
  have start: "\<exists>w1. startAnimation w = Some w1 \<and> startAnimation w1 = Some w1
               \<and> isAnimating w1 \<and> length (frames w1) = 1"
    if vis: "isPageVisible w \<and> isCanvasVisible w"
  proof -
    from startAnimation_inv [OF inv] vis obtain w1
      where 1: "startAnimation w = Some w1" "controller_inv w1" "isAnimating w1" by auto
    have "startAnimation w1 = Some w1" using 1(3) by (simp add: startAnimation_def)
    moreover have "length (frames w1) = 1" using 1(2,3) by (auto simp: controller_inv_iff)
    ultimately show ?thesis using 1 by blast
  qed
  have sinv: "controller_inv (stopAnimation w)" and sfr: "frames (stopAnimation w) = []"
    using stopAnimation_plain [OF inv] by simp_all
  have soff: "\<not> isAnimating (stopAnimation w)"
    by (simp add: stopAnimation_def Let_def)
  have sid: "animationId (stopAnimation w) = None"
    using sinv soff by (simp add: controller_inv_iff)
  have "stopAnimation (stopAnimation w) = stopAnimation w"
    using sinv soff by (rule stop_when_stopped)
  with one start sfr soff sid stop_when_stopped [OF inv] show ?thesis by blast
qed

theorem start_stop_idempotent_witness:
  "\<exists>s0 w w1. script False False False 1024 768 (\<lambda>k. 1 / 2) = Some s0
     \<and> run [AnimationFrame, VisibilityChange True, VisibilityChange False, MouseMove 10 20,
             Intersection [False, True], AnimationFrame] s0 = Some w
     \<and> isPageVisible s0 \<and> isCanvasVisible s0
     \<and> startAnimation s0 = Some w1 \<and> startAnimation w1 = Some w1
     \<and> isAnimating w1 \<and> length (frames w1) = 1
     \<and> length (frames w) \<le> 1 \<and> frames (stopAnimation w) = []
     \<and> stopAnimation (stopAnimation w) = stopAnimation w"
proof -
  let ?es = "[AnimationFrame, VisibilityChange True, VisibilityChange False, MouseMove 10 20,
             Intersection [False, True], AnimationFrame]"
  have r: "\<forall>k. 0 \<le> (\<lambda>k. 1 / 2 :: real) k \<and> (\<lambda>k. 1 / 2 :: real) k < 1" by simp
  then have r0: "\<forall>k. 0 \<le> (\<lambda>k. 1 / 2 :: real) k" by simp
  from script_inv [OF r0, of False False False 1024 768] obtain s0
    where s0: "script False False False 1024 768 (\<lambda>k. 1 / 2) = Some s0" "controller_inv s0"
    by blast
  have "TouchMove [] \<notin> set ?es" by simp
  from run_progress [OF s0(2) this] obtain w where w: "run ?es s0 = Some w" by blast
  have e: "run [] s0 = Some s0" by simp
  have vis: "isPageVisible s0" "isCanvasVisible s0"
    using script_visible [OF r0 s0(1)] by simp_all
  from start_stop_idempotent [OF r s0(1) e] vis
    start_stop_idempotent [OF r s0(1) w] s0(1) w
  show ?thesis by blast
qed

lemma update_near:
  assumes "p_x p = Num a" "p_y p = Num b"
    and "d = sqrt ((mouseX w - a) * (mouseX w - a) + (mouseY w - b) * (mouseY w - b))"
    and "0 < d" "d < 150"
  shows "p_x (update w p) = Num (a - (mouseX w - a) / d * ((150 - d) / 150) * density p * 0.5)"
    and "p_y (update w p) = Num (b - (mouseY w - b) / d * ((150 - d) / 150) * density p * 0.5)"
proof -
  have dist: "jsqrt (Num ((mouseX w - a) * (mouseX w - a) + (mouseY w - b) * (mouseY w - b))) = Num d"
    unfolding assms(3) by (simp add: not_less)
  have d: "d \<noteq> 0" "d < 150" using assms(4,5) by simp_all
  show "p_x (update w p) = Num (a - (mouseX w - a) / d * ((150 - d) / 150) * density p * 0.5)"
    using assms(1,2) d
    by (simp add: update_def Let_def jsub_def dist del: jsqrt.simps)
  show "p_y (update w p) = Num (b - (mouseY w - b) / d * ((150 - d) / 150) * density p * 0.5)"
    using assms(1,2) d
    by (simp add: update_def Let_def jsub_def dist del: jsqrt.simps)
qed

text \<open>
  C4, as the code has it. The pointer variables are never unset: they start at \<open>(0, 0)\<close> and
  keep that value until the first pointer event, and \<open>update\<close> treats it as a pointer
  position. Until then a particle at distance 150 or more from the origin advances only by
  its drift velocity, while a particle nearer to the origin (and not on it) is pushed away
  from the origin by \<open>(150 - d) / 150 * density * 0.5\<close> along the line through the origin.
\<close>

theorem pointer_starts_at_origin:
  assumes "\<forall>k. 0 \<le> rnd k \<and> rnd k < 1"
    and "script mobileAgent reducedMotion hidden innerWidth innerHeight rnd = Some s0"
    and "run es s0 = Some w"
    and "\<forall>e \<in> set es. \<not> pointer_event e"
    and "p_x p = Num a" and "p_y p = Num b"
  shows "mouseX w = 0 \<and> mouseY w = 0
    \<and> (150 \<le> sqrt (a * a + b * b) \<longrightarrow>
         p_x (update w p) = Num (a + vx p) \<and> p_y (update w p) = Num (b + vy p))
    \<and> (0 < sqrt (a * a + b * b) \<and> sqrt (a * a + b * b) < 150 \<longrightarrow>
         p_x (update w p)
           = Num (a + a / sqrt (a * a + b * b) * ((150 - sqrt (a * a + b * b)) / 150) * density p * 0.5)
       \<and> p_y (update w p)
           = Num (b + b / sqrt (a * a + b * b) * ((150 - sqrt (a * a + b * b)) / 150) * density p * 0.5))"
proof -
  have "\<forall>k. 0 \<le> rnd k" using assms(1) by simp
  from script_inv [OF this, of mobileAgent reducedMotion hidden innerWidth innerHeight] assms(2)
  have s0: "controller_inv s0" "mouseX s0 = 0" "mouseY s0 = 0" by simp_all
  from run_inv(2) [OF s0(1) assms(3,4)] s0(2,3)
  have m: "mouseX w = 0" "mouseY w = 0" by simp_all
  have sq: "(mouseX w - a) * (mouseX w - a) + (mouseY w - b) * (mouseY w - b) = a * a + b * b"
    by (simp add: m)
  have far: "p_x (update w p) = Num (a + vx p) \<and> p_y (update w p) = Num (b + vy p)"
    if "150 \<le> sqrt (a * a + b * b)"
    using update_drift(1,2) [OF assms(5,6), of w] that unfolding sq by simp
  have near: "p_x (update w p)
           = Num (a + a / sqrt (a * a + b * b) * ((150 - sqrt (a * a + b * b)) / 150) * density p * 0.5)
       \<and> p_y (update w p)
           = Num (b + b / sqrt (a * a + b * b) * ((150 - sqrt (a * a + b * b)) / 150) * density p * 0.5)"
    if "0 < sqrt (a * a + b * b) \<and> sqrt (a * a + b * b) < 150"
    using update_near [OF assms(5,6) sq [THEN arg_cong [of _ _ sqrt], symmetric]] that
    by (simp add: m)
  from m far near show ?thesis by blast
qed

theorem pointer_starts_at_origin_witness:
  "\<exists>s0 w. script False False False 1024 768 (\<lambda>k. 1 / 2) = Some s0
     \<and> run [AnimationFrame, VisibilityChange True, Resize 800 600, VisibilityChange False,
             AnimationFrame] s0 = Some w
     \<and> mouseX w = 0 \<and> mouseY w = 0
     \<and> p_x (update w \<lparr>p_x = Num 300, p_y = Num 400, p_size = 2, baseX = Num 300, baseY = Num 400,
            density = 1, vx = 1 / 10, vy = 0, colorOffset = 0, pulsePhase = 0\<rparr>) = Num (3001 / 10)
     \<and> p_x (update w \<lparr>p_x = Num 30, p_y = Num 40, p_size = 2, baseX = Num 30, baseY = Num 40,
            density = 1, vx = 1 / 10, vy = 0, colorOffset = 0, pulsePhase = 0\<rparr>) = Num (151 / 5)"
proof -
  let ?es = "[AnimationFrame, VisibilityChange True, Resize 800 600, VisibilityChange False,
             AnimationFrame]"
  have r: "\<forall>k. 0 \<le> (\<lambda>k. 1 / 2 :: real) k \<and> (\<lambda>k. 1 / 2 :: real) k < 1" by simp
  then have r0: "\<forall>k. 0 \<le> (\<lambda>k. 1 / 2 :: real) k" by simp
  from script_inv [OF r0, of False False False 1024 768] obtain s0
    where s0: "script False False False 1024 768 (\<lambda>k. 1 / 2) = Some s0" "controller_inv s0"
    by blast
  have "TouchMove [] \<notin> set ?es" by simp
  from run_progress [OF s0(2) this] obtain w where w: "run ?es s0 = Some w" by blast
  have e: "\<forall>e \<in> set ?es. \<not> pointer_event e" by simp
  have s1: "sqrt (300 * 300 + 400 * 400) = 500" by (rule real_sqrt_unique) simp_all
  have s2: "sqrt (30 * 30 + 40 * 40) = 50" by (rule real_sqrt_unique) simp_all
  let ?p = "\<lparr>p_x = Num 300, p_y = Num 400, p_size = 2, baseX = Num 300, baseY = Num 400,
            density = 1, vx = 1 / 10, vy = 0, colorOffset = 0, pulsePhase = 0 :: real\<rparr>"
  let ?q = "\<lparr>p_x = Num 30, p_y = Num 40, p_size = 2, baseX = Num 30, baseY = Num 40,
            density = 1, vx = 1 / 10, vy = 0, colorOffset = 0, pulsePhase = 0 :: real\<rparr>"
  from pointer_starts_at_origin [OF r s0(1) w e, of ?p 300 400]
  have 1: "mouseX w = 0 \<and> mouseY w = 0 \<and> p_x (update w ?p) = Num (3001 / 10)"
    unfolding s1 by simp
  from pointer_starts_at_origin [OF r s0(1) w e, of ?q 30 40]
  have 2: "p_x (update w ?q) = Num (151 / 5)"
    unfolding s2 by simp
  from s0(1) w 1 2 show ?thesis by blast
qed

text \<open>
  C4 as stated fails. Before any event, with the pointer variables at \<open>(0, 0)\<close>, a particle at
  \<open>(30, 40)\<close> with \<open>vx = 0.1\<close> and \<open>vy = 0\<close> is moved to \<open>(30.2, 40.2666...)\<close>, not to
  \<open>(30.1, 40)\<close>: the repulsion branch runs.
\<close>

theorem pointer_at_origin_repels_counterexample:
  "mouseX (resizeCanvas 1024 768 (declarations False False False 1024 (\<lambda>k. 0))) = 0
   \<and> mouseY (resizeCanvas 1024 768 (declarations False False False 1024 (\<lambda>k. 0))) = 0
   \<and> p_x (update (resizeCanvas 1024 768 (declarations False False False 1024 (\<lambda>k. 0)))
        \<lparr>p_x = Num 30, p_y = Num 40, p_size = 2, baseX = Num 30, baseY = Num 40, density = 1,
         vx = 1 / 10, vy = 0, colorOffset = 0, pulsePhase = 0\<rparr>) = Num (151 / 5)
   \<and> p_y (update (resizeCanvas 1024 768 (declarations False False False 1024 (\<lambda>k. 0)))
        \<lparr>p_x = Num 30, p_y = Num 40, p_size = 2, baseX = Num 30, baseY = Num 40, density = 1,
         vx = 1 / 10, vy = 0, colorOffset = 0, pulsePhase = 0\<rparr>) = Num (604 / 15)
   \<and> Num (151 / 5) \<noteq> Num (30 + 1 / 10)"
proof -
  have s: "sqrt 2500 = 50" by (rule real_sqrt_unique) simp_all
  show ?thesis
    by (simp add: update_def Let_def jsub_def resizeCanvas_def declarations_def s)
qed

subsection \<open>The connector pass\<close>

lemma connect_inner_trace:
  assumes "connect_inner w a b acc = Some r"
  shows "(\<forall>j \<in> set [b..<length (particles w)]. connectPair w a j \<noteq> None)
    \<and> r = acc @ concat (map (\<lambda>j. the (connectPair w a j)) [b..<length (particles w)])"
  using assms
proof (induction w a b acc arbitrary: r rule: connect_inner.induct)
  case (1 w a b acc)
  show ?case
  proof (cases "b < length (particles w)")
    case True
    from "1.prems" True obtain cs where cs: "connectPair w a b = Some cs"
      and rest: "connect_inner w a (Suc b) (acc @ cs) = Some r"
      by (subst (asm) connect_inner.simps) (auto split: option.splits)
    have up: "[b..<length (particles w)] = b # [Suc b..<length (particles w)]"
      using True by (rule upt_conv_Cons)
    from "1.IH" [OF True cs rest] cs show ?thesis
      unfolding up by simp
  next
    case False
    with "1.prems" have "r = acc" by (subst (asm) connect_inner.simps) simp
    with False show ?thesis by simp
  qed
qed

lemma connect_outer_trace:
  assumes "connect_outer w a acc = Some r"
  shows "(\<forall>i \<in> set [a..<length (particles w)].
            \<forall>j \<in> set [Suc i..<length (particles w)]. connectPair w i j \<noteq> None)
    \<and> r = acc @ concat (map (\<lambda>i. concat (map (\<lambda>j. the (connectPair w i j))
                                    [Suc i..<length (particles w)]))
                          [a..<length (particles w)])"
  using assms
proof (induction w a acc arbitrary: r rule: connect_outer.induct)
  case (1 w a acc)
  show ?case
  proof (cases "a < length (particles w)")
    case True
    from "1.prems" True obtain acc' where i: "connect_inner w a (Suc a) acc = Some acc'"
      and rest: "connect_outer w (Suc a) acc' = Some r"
      by (subst (asm) connect_outer.simps) (auto split: option.splits)
    have up: "[a..<length (particles w)] = a # [Suc a..<length (particles w)]"
      using True by (rule upt_conv_Cons)
    from "1.IH" [OF True i rest] connect_inner_trace [OF i] show ?thesis
      unfolding up by simp
  next
    case False
    with "1.prems" have "r = acc" by (subst (asm) connect_outer.simps) simp
    with False show ?thesis by simp
  qed
qed

lemma connectParticles_trace:
  assumes "connectParticles w = Some w'"
  shows "ctx w' = ctx w @ concat (map (\<lambda>i. concat (map (\<lambda>j. the (connectPair w i j))
                                    [Suc i..<length (particles w)]))
                          [0..<length (particles w)])"
    and "i < j \<Longrightarrow> j < length (particles w) \<Longrightarrow> connectPair w i j \<noteq> None"
proof -
  from assms obtain r where r: "connect_outer w 0 [] = Some r" and w': "w' = w\<lparr>ctx := ctx w @ r\<rparr>"
    by (auto simp: connectParticles_def split: option.splits)
  from connect_outer_trace [OF r] w'
  show "ctx w' = ctx w @ concat (map (\<lambda>i. concat (map (\<lambda>j. the (connectPair w i j))
                                    [Suc i..<length (particles w)]))
                          [0..<length (particles w)])"
    by simp
  show "connectPair w i j \<noteq> None" if "i < j" "j < length (particles w)"
    using connect_outer_trace [OF r] that by simp
qed

lemma connectPair_far:
  assumes "p_x (particles w ! a) = Num xa" "p_y (particles w ! a) = Num ya"
    "p_x (particles w ! b) = Num xb" "p_y (particles w ! b) = Num yb"
    and "(if isMobile w then 100 else 120) < sqrt ((xa - xb) * (xa - xb) + (ya - yb) * (ya - yb))"
  shows "connectPair w a b = Some []"
proof -
  let ?S = "(xa - xb) * (xa - xb) + (ya - yb) * (ya - yb)"
  let ?T = "if isMobile w then 100 else 120 :: real"
  have T: "0 \<le> ?T" by simp
  have "?T * ?T < ?S"
  proof (rule ccontr)
    assume "\<not> ?T * ?T < ?S"
    then have "?S \<le> ?T\<^sup>2" by (simp add: power2_eq_square not_less)
    with T have "sqrt ?S \<le> ?T" by (rule real_le_lsqrt)
    with assms(5) show False by linarith
  qed
  then show ?thesis
    using assms(1-4) by (simp add: connectPair_def Let_def jsub_def jgt_def)
qed

lemma connectPair_near:
  assumes "p_x (particles w ! a) = Num xa" "p_y (particles w ! a) = Num ya"
    "p_x (particles w ! b) = Num xb" "p_y (particles w ! b) = Num yb"
    and d: "d = sqrt ((xa - xb) * (xa - xb) + (ya - yb) * (ya - yb))"
    and near: "d \<le> (if isMobile w then 100 else 120)"
    and some: "connectPair w a b \<noteq> None"
  shows "\<exists>r g bl. connectPair w a b =
      Some [SetStrokeStyle (Rgba r g bl (Num ((1 - d / (if isMobile w then 100 else 120)) * 0.25))),
            SetLineWidth 1, BeginPath, MoveTo (Num xa) (Num ya), LineTo (Num xb) (Num yb), Stroke]"
proof -
  let ?S = "(xa - xb) * (xa - xb) + (ya - yb) * (ya - yb)"
  let ?T = "if isMobile w then 100 else 120 :: real"
  have dist: "jsqrt (Num ?S) = Num d"
    unfolding d by (simp add: not_less)
  have "0 \<le> ?S" by simp
  then have "?S = (sqrt ?S)\<^sup>2" by simp
  also have "\<dots> \<le> ?T\<^sup>2"
    using near unfolding d by (intro power_mono) simp_all
  finally have le: "\<not> ?T * ?T < ?S" by (simp add: power2_eq_square not_less)
  from some obtain cs where cs: "connectPair w a b = Some cs" by blast
  then show ?thesis
    using assms(1-4) le
    by (auto simp add: connectPair_def Let_def jsub_def jgt_def dist simp del: jsqrt.simps
        split: option.splits if_splits)
qed

text \<open>
  C5. The calls a connector pass makes are those of the loop body for the pairs \<open>i < j\<close>, in
  order. For a pair of particles at finite positions whose distance exceeds the threshold
  (100 on a mobile device, 120 otherwise) the body makes no call; for a pair within the
  threshold it strokes one line between them with alpha \<open>(1 - d / threshold) * 0.25\<close>, which
  is \<open>0.25\<close> at distance 0.
\<close>

theorem connector_pass:
  assumes "connectParticles w = Some w'"
    and "a < b" and "b < length (particles w)"
    and "p_x (particles w ! a) = Num xa" "p_y (particles w ! a) = Num ya"
    and "p_x (particles w ! b) = Num xb" "p_y (particles w ! b) = Num yb"
    and "d = sqrt ((xa - xb) * (xa - xb) + (ya - yb) * (ya - yb))"
    and "threshold = (if isMobile w then 100 else 120)"
  shows "ctx w' = ctx w @ concat (map (\<lambda>i. concat (map (\<lambda>j. the (connectPair w i j))
                                    [Suc i..<length (particles w)]))
                          [0..<length (particles w)])
    \<and> (threshold < d \<longrightarrow> connectPair w a b = Some [])
    \<and> (d \<le> threshold \<longrightarrow> (\<exists>r g bl. connectPair w a b =
          Some [SetStrokeStyle (Rgba r g bl (Num ((1 - d / threshold) * 0.25))),
                SetLineWidth 1, BeginPath, MoveTo (Num xa) (Num ya), LineTo (Num xb) (Num yb), Stroke]))
    \<and> (d = 0 \<longrightarrow> (\<exists>r g bl. connectPair w a b =
          Some [SetStrokeStyle (Rgba r g bl (Num 0.25)),
                SetLineWidth 1, BeginPath, MoveTo (Num xa) (Num ya), LineTo (Num xb) (Num yb), Stroke]))"
proof -
  have some: "connectPair w a b \<noteq> None"
    using connectParticles_trace(2) [OF assms(1-3)] .
  have far: "connectPair w a b = Some []" if "threshold < d"
    using connectPair_far [OF assms(4-7)] that unfolding assms(8,9) by simp
  have near: "\<exists>r g bl. connectPair w a b =
          Some [SetStrokeStyle (Rgba r g bl (Num ((1 - d / threshold) * 0.25))),
                SetLineWidth 1, BeginPath, MoveTo (Num xa) (Num ya), LineTo (Num xb) (Num yb), Stroke]"
    if "d \<le> threshold"
    using connectPair_near [OF assms(4-8) _ some] that unfolding assms(9) by simp
  have zero: "\<exists>r g bl. connectPair w a b =
          Some [SetStrokeStyle (Rgba r g bl (Num 0.25)),
                SetLineWidth 1, BeginPath, MoveTo (Num xa) (Num ya), LineTo (Num xb) (Num yb), Stroke]"
    if "d = 0"
  proof -
    have "d \<le> threshold" using that assms(9) by simp
    from near [OF this] that show ?thesis by simp
  qed
  from connectParticles_trace(1) [OF assms(1)] far near zero show ?thesis by blast
qed

theorem connector_pass_witness:
  "\<exists>w'. connectParticles
        ((declarations False False False 1024 (\<lambda>k. 0))
          \<lparr>particles :=
            [\<lparr>p_x = Num 10, p_y = Num 10, p_size = 2, baseX = Num 10, baseY = Num 10,
              density = 1, vx = 0, vy = 0, colorOffset = 0, pulsePhase = 0\<rparr>,
             \<lparr>p_x = Num 500, p_y = Num 500, p_size = 2, baseX = Num 500, baseY = Num 500,
              density = 1, vx = 0, vy = 0, colorOffset = 0, pulsePhase = 0\<rparr>,
             \<lparr>p_x = Num 10, p_y = Num 10, p_size = 2, baseX = Num 10, baseY = Num 10,
              density = 1, vx = 0, vy = 0, colorOffset = 0, pulsePhase = 0\<rparr>]\<rparr>) = Some w'
     \<and> connectPair
        ((declarations False False False 1024 (\<lambda>k. 0))
          \<lparr>particles :=
            [\<lparr>p_x = Num 10, p_y = Num 10, p_size = 2, baseX = Num 10, baseY = Num 10,
              density = 1, vx = 0, vy = 0, colorOffset = 0, pulsePhase = 0\<rparr>,
             \<lparr>p_x = Num 500, p_y = Num 500, p_size = 2, baseX = Num 500, baseY = Num 500,
              density = 1, vx = 0, vy = 0, colorOffset = 0, pulsePhase = 0\<rparr>,
             \<lparr>p_x = Num 10, p_y = Num 10, p_size = 2, baseX = Num 10, baseY = Num 10,
              density = 1, vx = 0, vy = 0, colorOffset = 0, pulsePhase = 0\<rparr>]\<rparr>) 0 1 = Some []
     \<and> (\<exists>r g bl. connectPair
        ((declarations False False False 1024 (\<lambda>k. 0))
          \<lparr>particles :=
            [\<lparr>p_x = Num 10, p_y = Num 10, p_size = 2, baseX = Num 10, baseY = Num 10,
              density = 1, vx = 0, vy = 0, colorOffset = 0, pulsePhase = 0\<rparr>,
             \<lparr>p_x = Num 500, p_y = Num 500, p_size = 2, baseX = Num 500, baseY = Num 500,
              density = 1, vx = 0, vy = 0, colorOffset = 0, pulsePhase = 0\<rparr>,
             \<lparr>p_x = Num 10, p_y = Num 10, p_size = 2, baseX = Num 10, baseY = Num 10,
              density = 1, vx = 0, vy = 0, colorOffset = 0, pulsePhase = 0\<rparr>]\<rparr>) 0 2 =
          Some [SetStrokeStyle (Rgba r g bl (Num (1 / 4))), SetLineWidth 1, BeginPath,
                MoveTo (Num 10) (Num 10), LineTo (Num 10) (Num 10), Stroke])"
proof -
  define W where "W = (declarations False False False 1024 (\<lambda>k. 0))
          \<lparr>particles :=
            [\<lparr>p_x = Num 10, p_y = Num 10, p_size = 2, baseX = Num 10, baseY = Num 10,
              density = 1, vx = 0, vy = 0, colorOffset = 0, pulsePhase = 0\<rparr>,
             \<lparr>p_x = Num 500, p_y = Num 500, p_size = 2, baseX = Num 500, baseY = Num 500,
              density = 1, vx = 0, vy = 0, colorOffset = 0, pulsePhase = 0\<rparr>,
             \<lparr>p_x = Num 10, p_y = Num 10, p_size = 2, baseX = Num 10, baseY = Num 10,
              density = 1, vx = 0, vy = 0, colorOffset = 0, pulsePhase = 0\<rparr>]\<rparr>"
  have "0 \<le> colorTime W" "\<forall>p \<in> set (particles W). 0 \<le> colorOffset p"
    by (simp_all add: W_def declarations_def)
  from connectParticles_ok [OF this] obtain w' where w': "connectParticles W = Some w'" by blast
  have len: "1 < length (particles W)" "2 < length (particles W)" by (simp_all add: W_def)
  have pos: "p_x (particles W ! 0) = Num 10" "p_y (particles W ! 0) = Num 10"
    "p_x (particles W ! 1) = Num 500" "p_y (particles W ! 1) = Num 500"
    "p_x (particles W ! 2) = Num 10" "p_y (particles W ! 2) = Num 10"
    by (simp_all add: W_def)
  have T: "(120 :: real) = (if isMobile W then 100 else 120)"
    by (simp add: W_def declarations_def)
  have far: "(120 :: real) < sqrt ((10 - 500) * (10 - 500) + (10 - 500) * (10 - 500))"
    by (rule real_less_rsqrt) simp
  have zero: "sqrt ((10 - 10) * (10 - 10) + (10 - 10) * (10 - 10)) = (0 :: real)"
    by simp
  from connector_pass [OF w' _ len(1) pos(1,2,3,4) refl T] far
  have 1: "connectPair W 0 1 = Some []" by simp
  from connector_pass [OF w' _ len(2) pos(1,2,5,6) refl T] zero
  have 2: "\<exists>r g bl. connectPair W 0 2 =
          Some [SetStrokeStyle (Rgba r g bl (Num (1 / 4))), SetLineWidth 1, BeginPath,
                MoveTo (Num 10) (Num 10), LineTo (Num 10) (Num 10), Stroke]"
    by simp
  from w' 1 2 show ?thesis unfolding W_def by blast
qed

end
